theory Spec2Isabelle
  imports Main "HOL-Library.AList" "HOL-Library.Log_Nat" "HOL-Library.Multiset"
begin

section \<open>Python values\<close>

text \<open>
  The pipeline passes posts around as plain dictionaries. A post is modelled as a value
  of \<open>pyval\<close>, the JSON-shaped fragment of Python's objects: \<open>None\<close>, booleans,
  unbounded integers, floats, strings, lists, and dictionaries with string keys (an
  association list in insertion order; a lookup reads the first binding of a key).
  A \<open>char\<close> stands for one code point below 256 and \<open>length\<close> is Python's \<open>len\<close>.

  A float is either a finite binary64 number, given by its exact rational value, or one
  of the three special values. The sign of a zero is not tracked.
\<close>

datatype pyfloat = Fin rat | PInf | NInf | NaN

datatype pyval =
    PyNone
  | PyBool bool
  | PyInt int
  | PyFloat pyfloat
  | PyStr string
  | PyList "pyval list"
  | PyDict "(string \<times> pyval) list"

text \<open>The exceptions that the modelled code can raise; their message texts are left out.\<close>

datatype pyexn =
  AttributeError | TypeError | KeyError | ValueError | OverflowError | ZeroDivisionError

text \<open>\<open>isinstance(v, int)\<close>: \<open>bool\<close> is a subclass of \<open>int\<close>, \<open>True\<close> is 1.\<close>

fun as_int :: "pyval \<Rightarrow> int option" where
  "as_int (PyInt i) = Some i"
| "as_int (PyBool b) = Some (if b then 1 else 0)"
| "as_int _ = None"

text \<open>Lists and dictionaries cannot be hashed: using one as a set member or as a
  dictionary key raises \<open>TypeError\<close>.\<close>

fun py_hashable :: "pyval \<Rightarrow> bool" where
  "py_hashable (PyList _) = False"
| "py_hashable (PyDict _) = False"
| "py_hashable _ = True"

text \<open>\<open>v in S\<close> for a set \<open>S\<close> of strings.\<close>

definition in_str_set :: "pyval \<Rightarrow> string list \<Rightarrow> pyexn + bool" where
  "in_str_set v S =
     (if \<not> py_hashable v then Inl TypeError
      else Inr (case v of PyStr s \<Rightarrow> s \<in> set S | _ \<Rightarrow> False))"

subsection \<open>Strings\<close>

text \<open>\<open>str.isspace\<close> on the code points below 256.\<close>

definition py_isspace :: "char \<Rightarrow> bool" where
  "py_isspace c \<longleftrightarrow>
     (of_char c :: nat) \<in> {9, 10, 11, 12, 13, 28, 29, 30, 31, 32, 133, 160}"

definition py_strip :: "string \<Rightarrow> string" where
  "py_strip s = rev (dropWhile py_isspace (rev (dropWhile py_isspace s)))"

text \<open>\<open>s.replace('Z', '+00:00')\<close>.\<close>

definition py_replace_Z :: "string \<Rightarrow> string" where
  "py_replace_Z s = concat (map (\<lambda>c. if c = CHR ''Z'' then ''+00:00'' else [c]) s)"

text \<open>\<open>datetime\<close> objects, as far as the pipeline reads them.\<close>

record datetime =
  year :: nat
  month :: nat
  day :: nat
  hour :: nat
  minute :: nat
  second :: nat
  microsecond :: nat

text \<open>\<open>s.split()\<close>: the maximal runs of characters that are not whitespace.\<close>

fun split_from :: "string \<Rightarrow> string \<Rightarrow> string list" where
  "split_from [] cur = (if cur = [] then [] else [rev cur])"
| "split_from (c # cs) cur =
     (if py_isspace c then (if cur = [] then split_from cs [] else rev cur # split_from cs [])
      else split_from cs (c # cur))"

definition py_split :: "string \<Rightarrow> string list" where
  "py_split s = split_from s []"

text \<open>\<open>str(n)\<close> for an integer, and \<open>'%0wd'\<close>.\<close>

definition digit_char :: "nat \<Rightarrow> char" where
  "digit_char d = ''0123456789'' ! (d mod 10)"

function show_nat :: "nat \<Rightarrow> string" where
  "show_nat n = (if n < 10 then [digit_char n] else show_nat (n div 10) @ [digit_char n])"
  by pat_completeness auto
termination
  by (relation "measure id") auto

declare show_nat.simps [simp del]

definition show_int :: "int \<Rightarrow> string" where
  "show_int i = (if i < 0 then ''-'' @ show_nat (nat (- i)) else show_nat (nat i))"

definition pad_nat :: "nat \<Rightarrow> nat \<Rightarrow> string" where
  "pad_nat w n = replicate (w - length (show_nat n)) (CHR ''0'') @ show_nat n"

text \<open>\<open>datetime.isoformat()\<close> of a naive \<open>datetime\<close>.\<close>

definition isoformat :: "datetime \<Rightarrow> string" where
  "isoformat t =
     pad_nat 4 (year t) @ ''-'' @ pad_nat 2 (month t) @ ''-'' @ pad_nat 2 (day t) @ ''T''
     @ pad_nat 2 (hour t) @ '':'' @ pad_nat 2 (minute t) @ '':'' @ pad_nat 2 (second t)
     @ (if microsecond t = 0 then [] else ''.'' @ pad_nat 6 (microsecond t))"

subsection \<open>Dictionaries and exceptions\<close>

type_synonym pydict = "(string \<times> pyval) list"

text \<open>\<open>d[k]\<close> raises \<open>KeyError\<close> on a missing key.\<close>

definition getitem :: "pydict \<Rightarrow> string \<Rightarrow> pyexn + pyval" where
  "getitem d k = (case map_of d k of None \<Rightarrow> Inl KeyError | Some v \<Rightarrow> Inr v)"

text \<open>Sequencing: an exception in the first computation skips the second.\<close>

definition bind_exn :: "pyexn + 'a \<Rightarrow> ('a \<Rightarrow> pyexn + 'b) \<Rightarrow> pyexn + 'b" where
  "bind_exn m f = (case m of Inl e \<Rightarrow> Inl e | Inr x \<Rightarrow> f x)"

section \<open>Floating-point arithmetic\<close>

text \<open>
  Python's \<open>float\<close> is IEEE 754 binary64. The result of an operation is the exact result
  rounded to the nearest number with a 53-bit significand, ties to the even significand
  (\<open>round_binary64\<close>); the least exponent is \<open>-1074\<close>, which gives the subnormal numbers,
  and a rounded result of magnitude \<open>2^1024\<close> or more overflows.
\<close>

definition round_half_even :: "rat \<Rightarrow> int" where
  "round_half_even x =
     (let f = \<lfloor>x\<rfloor>; d = x - of_int f
      in if d < 1/2 then f else if 1/2 < d then f + 1 else if even f then f else f + 1)"

text \<open>\<open>ilog2 q\<close> is the integer \<open>k\<close> with \<open>2^k \<le> q < 2^(k+1)\<close>, for positive \<open>q\<close>.\<close>

definition ilog2 :: "rat \<Rightarrow> int" where
  "ilog2 q =
     (case quotient_of q of
        (a, b) \<Rightarrow> let k = bitlen a - bitlen b in if 2 powi k \<le> q then k else k - 1)"

definition binade_exp :: "rat \<Rightarrow> int" where
  "binade_exp q = max (ilog2 \<bar>q\<bar> - 52) (- 1074)"

definition round_binary64 :: "rat \<Rightarrow> rat" where
  "round_binary64 q =
     (if q = 0 then 0
      else of_int (round_half_even (q / 2 powi binade_exp q)) * 2 powi binade_exp q)"

definition to_float :: "rat \<Rightarrow> pyfloat" where
  "to_float q =
     (let r = round_binary64 q
      in if 2 powi 1024 \<le> r then PInf else if r \<le> - (2 powi 1024) then NInf else Fin r)"

text \<open>A float operation that raises \<open>OverflowError\<close> where IEEE arithmetic would give
  an infinity.\<close>

definition finite_or_overflow :: "pyfloat \<Rightarrow> pyexn + pyfloat" where
  "finite_or_overflow x = (case x of Fin r \<Rightarrow> Inr (Fin r) | _ \<Rightarrow> Inl OverflowError)"

text \<open>\<open>float(i)\<close>, the conversion that \<open>int * float\<close> applies to its left operand.\<close>

definition float_of_int :: "int \<Rightarrow> pyexn + pyfloat" where
  "float_of_int i = finite_or_overflow (to_float (of_int i))"

text \<open>\<open>a / b\<close> on integers: the quotient, correctly rounded.\<close>

definition int_truediv :: "int \<Rightarrow> int \<Rightarrow> pyexn + pyfloat" where
  "int_truediv a b =
     (if b = 0 then Inl ZeroDivisionError
      else finite_or_overflow (to_float (of_int a / of_int b)))"

fun float_mul :: "pyfloat \<Rightarrow> pyfloat \<Rightarrow> pyfloat" where
  "float_mul (Fin a) (Fin b) = to_float (a * b)"
| "float_mul NaN _ = NaN"
| "float_mul _ NaN = NaN"
| "float_mul (Fin a) PInf = (if a = 0 then NaN else if 0 < a then PInf else NInf)"
| "float_mul (Fin a) NInf = (if a = 0 then NaN else if 0 < a then NInf else PInf)"
| "float_mul PInf (Fin b) = (if b = 0 then NaN else if 0 < b then PInf else NInf)"
| "float_mul NInf (Fin b) = (if b = 0 then NaN else if 0 < b then NInf else PInf)"
| "float_mul PInf PInf = PInf"
| "float_mul PInf NInf = NInf"
| "float_mul NInf PInf = NInf"
| "float_mul NInf NInf = PInf"

fun float_add :: "pyfloat \<Rightarrow> pyfloat \<Rightarrow> pyfloat" where
  "float_add (Fin a) (Fin b) = to_float (a + b)"
| "float_add NaN _ = NaN"
| "float_add _ NaN = NaN"
| "float_add PInf NInf = NaN"
| "float_add NInf PInf = NaN"
| "float_add PInf _ = PInf"
| "float_add _ PInf = PInf"
| "float_add NInf _ = NInf"
| "float_add _ NInf = NInf"

text \<open>Comparison of floats: every comparison with \<open>NaN\<close> is false.\<close>

fun float_lt :: "pyfloat \<Rightarrow> pyfloat \<Rightarrow> bool" where
  "float_lt (Fin a) (Fin b) = (a < b)"
| "float_lt (Fin a) PInf = True"
| "float_lt NInf (Fin b) = True"
| "float_lt NInf PInf = True"
| "float_lt _ _ = False"

text \<open>
  \<open>round(x, 2)\<close> on a float: the exact value of \<open>x\<close> is rounded to two decimals, ties to
  the even digit, and the decimal is converted back to the nearest float. Infinities and
  \<open>NaN\<close> round to themselves.
\<close>

definition py_round2 :: "pyfloat \<Rightarrow> pyexn + pyfloat" where
  "py_round2 x =
     (case x of
        Fin r \<Rightarrow> finite_or_overflow (to_float (of_int (round_half_even (r * 100)) / 100))
      | _ \<Rightarrow> Inr x)"

text \<open>A float literal denotes the float nearest to its decimal value.\<close>

definition float_lit :: "rat \<Rightarrow> pyfloat" where
  "float_lit q = Fin (round_binary64 q)"

section \<open>The consumer: validation\<close>

text \<open>
  The entries of the error list. The fixed messages are kept as text; a message that
  interpolates a set or an arbitrary value carries that set or value instead of its
  rendering (a set is printed in an order that Python does not fix).
  \<open>ValidationError e\<close> is \<open>"Validation error: " + str(e)\<close> and \<open>ExceptionText e\<close> is
  \<open>str(e)\<close> alone, as \<open>process_post\<close> logs it.
\<close>

datatype msg =
    Text string
  | MissingRequiredFields "string set"
  | MissingEngagementFields "string set"
  | InvalidPlatform pyval
  | InvalidSentiment pyval
  | InvalidCategory pyval
  | ValidationError pyexn
  | ExceptionText pyexn

definition required_fields :: "string list" where
  "required_fields =
     [''post_id'', ''user_id'', ''username'', ''platform'', ''content'',
      ''engagement'', ''metadata'', ''sentiment'', ''category'']"

definition valid_platforms :: "string list" where
  "valid_platforms = [''twitter'', ''facebook'', ''instagram'', ''linkedin'', ''tiktok'']"

definition valid_sentiments :: "string list" where
  "valid_sentiments = [''positive'', ''neutral'', ''negative'']"

definition valid_categories :: "string list" where
  "valid_categories = [''educational'', ''news'', ''discussion'', ''advice'', ''general'']"

text \<open>The set is iterated in an order Python does not fix; the model takes the order
  in which the source writes it.\<close>

definition required_engagement_fields :: "string list" where
  "required_engagement_fields = [''likes'', ''shares'', ''comments'', ''views'']"

text \<open>
  \<open>validate_post\<close> is one \<open>try\<close> block of nine checks in sequence. Each check is a
  function of the dictionary that either raises or returns the messages it appends.
\<close>

type_synonym check = "pydict \<Rightarrow> pyexn + msg list"

definition check_required :: check where
  "check_required p =
     (let missing_fields = set required_fields - set (map fst p)
      in Inr (if missing_fields \<noteq> {} then [MissingRequiredFields missing_fields] else []))"

definition check_post_id :: check where
  "check_post_id p =
     Inr (case map_of p ''post_id'' of
            None \<Rightarrow> []
          | Some (PyStr s) \<Rightarrow>
              if py_strip s = [] then [Text ''post_id must be a non-empty string''] else []
          | Some _ \<Rightarrow> [Text ''post_id must be a non-empty string''])"

definition check_user_id :: check where
  "check_user_id p =
     Inr (case map_of p ''user_id'' of
            None \<Rightarrow> []
          | Some v \<Rightarrow>
              (case as_int v of
                 None \<Rightarrow> [Text ''user_id must be a positive integer'']
               | Some i \<Rightarrow>
                   if i \<le> 0 then [Text ''user_id must be a positive integer''] else []))"

definition check_platform :: check where
  "check_platform p =
     (case map_of p ''platform'' of
        None \<Rightarrow> Inr []
      | Some v \<Rightarrow>
          (case in_str_set v valid_platforms of
             Inl e \<Rightarrow> Inl e
           | Inr b \<Rightarrow> Inr (if \<not> b then [InvalidPlatform v] else [])))"

definition check_content :: check where
  "check_content p =
     Inr (case map_of p ''content'' of
            None \<Rightarrow> []
          | Some (PyStr s) \<Rightarrow>
              if py_strip s = [] then [Text ''content must be a non-empty string'']
              else if length s > 10000 then [Text ''content exceeds maximum length'']
              else []
          | Some _ \<Rightarrow> [Text ''content must be a non-empty string''])"

definition check_engagement_field :: "pydict \<Rightarrow> string \<Rightarrow> msg list" where
  "check_engagement_field engagement field =
     (case map_of engagement field of
        None \<Rightarrow> []
      | Some v \<Rightarrow>
          (case as_int v of
             None \<Rightarrow> [Text (''engagement.'' @ field @ '' must be a non-negative integer'')]
           | Some i \<Rightarrow>
               if i < 0
               then [Text (''engagement.'' @ field @ '' must be a non-negative integer'')]
               else []))"

definition check_engagement :: check where
  "check_engagement p =
     Inr (case map_of p ''engagement'' of
            None \<Rightarrow> []
          | Some (PyDict engagement) \<Rightarrow>
              (let missing_engagement =
                     set required_engagement_fields - set (map fst engagement)
               in (if missing_engagement \<noteq> {}
                   then [MissingEngagementFields missing_engagement] else [])
                  @ concat (map (check_engagement_field engagement)
                              required_engagement_fields))
          | Some _ \<Rightarrow> [Text ''engagement must be a dictionary''])"

text \<open>
  The parser \<open>datetime.fromisoformat\<close> belongs to the Python library, and which strings
  it accepts depends on the interpreter's version. It is a parameter \<open>fromiso\<close> of the
  consumer's functions; \<open>None\<close> is its \<open>ValueError\<close>. Calling \<open>replace\<close> on a value that
  is not a string raises \<open>AttributeError\<close>; the inner \<open>try\<close> turns both into a message.
\<close>

definition check_timestamp :: "(string \<Rightarrow> datetime option) \<Rightarrow> pydict \<Rightarrow> msg list" where
  "check_timestamp fromiso metadata =
     (case map_of metadata ''timestamp'' of
        None \<Rightarrow> []
      | Some (PyStr s) \<Rightarrow>
          (case fromiso (py_replace_Z s) of
             None \<Rightarrow> [Text ''metadata.timestamp must be a valid ISO format datetime'']
           | Some _ \<Rightarrow> [])
      | Some _ \<Rightarrow> [Text ''metadata.timestamp must be a valid ISO format datetime''])"

fun is_str :: "pyval \<Rightarrow> bool" where
  "is_str (PyStr _) = True"
| "is_str _ = False"

definition check_hashtags :: "pydict \<Rightarrow> msg list" where
  "check_hashtags metadata =
     (case map_of metadata ''hashtags'' of
        None \<Rightarrow> []
      | Some (PyList tags) \<Rightarrow>
          if \<not> list_all is_str tags then [Text ''All hashtags must be strings''] else []
      | Some _ \<Rightarrow> [Text ''metadata.hashtags must be a list''])"

definition check_metadata :: "(string \<Rightarrow> datetime option) \<Rightarrow> check" where
  "check_metadata fromiso p =
     Inr (case map_of p ''metadata'' of
            None \<Rightarrow> []
          | Some (PyDict metadata) \<Rightarrow>
              check_timestamp fromiso metadata @ check_hashtags metadata
          | Some _ \<Rightarrow> [Text ''metadata must be a dictionary''])"

definition check_sentiment :: check where
  "check_sentiment p =
     (case map_of p ''sentiment'' of
        None \<Rightarrow> Inr []
      | Some v \<Rightarrow>
          (case in_str_set v valid_sentiments of
             Inl e \<Rightarrow> Inl e
           | Inr b \<Rightarrow> Inr (if \<not> b then [InvalidSentiment v] else [])))"

definition check_category :: check where
  "check_category p =
     (case map_of p ''category'' of
        None \<Rightarrow> Inr []
      | Some v \<Rightarrow>
          (case in_str_set v valid_categories of
             Inl e \<Rightarrow> Inl e
           | Inr b \<Rightarrow> Inr (if \<not> b then [InvalidCategory v] else [])))"

definition checks :: "(string \<Rightarrow> datetime option) \<Rightarrow> check list" where
  "checks fromiso =
     [check_required, check_post_id, check_user_id, check_platform, check_content,
      check_engagement, check_metadata fromiso, check_sentiment, check_category]"

text \<open>Running the statements of the \<open>try\<close> block: the first exception ends the block and
  leaves the messages appended so far.\<close>

fun run_checks :: "check list \<Rightarrow> pydict \<Rightarrow> msg list \<Rightarrow> msg list \<times> pyexn option" where
  "run_checks [] p errors = (errors, None)"
| "run_checks (c # cs) p errors =
     (case c p of
        Inl e \<Rightarrow> (errors, Some e)
      | Inr ms \<Rightarrow> run_checks cs p (errors @ ms))"

text \<open>The \<open>try\<close> block on any value: \<open>post_data.keys()\<close> raises \<open>AttributeError\<close> on
  everything but a dictionary.\<close>

definition validate_body ::
  "(string \<Rightarrow> datetime option) \<Rightarrow> pyval \<Rightarrow> msg list \<times> pyexn option" where
  "validate_body fromiso post_data =
     (case post_data of
        PyDict p \<Rightarrow> run_checks (checks fromiso) p []
      | _ \<Rightarrow> ([], Some AttributeError))"

definition validate_post ::
  "(string \<Rightarrow> datetime option) \<Rightarrow> pyval \<Rightarrow> bool \<times> msg list" where
  "validate_post fromiso post_data =
     (let errors =
        (case validate_body fromiso post_data of
           (errors, None) \<Rightarrow> errors
         | (errors, Some e) \<Rightarrow> errors @ [ValidationError e])
      in (length errors = 0, errors))"

section \<open>The consumer: transformation\<close>

text \<open>
  \<open>transform_post\<close> is called on posts that passed validation. There the engagement
  counts are integers, the content is a string, the metadata is a dictionary and the
  hashtags, when present, are a list. On a post of another shape the model raises
  \<open>TypeError\<close> at the first value of the wrong type, where Python may go on computing
  with it; no such post reaches \<open>transform_post\<close> through \<open>process_post\<close>.
\<close>

definition int_item :: "pydict \<Rightarrow> string \<Rightarrow> pyexn + int" where
  "int_item d k =
     bind_exn (getitem d k) (\<lambda>v. case as_int v of None \<Rightarrow> Inl TypeError | Some i \<Rightarrow> Inr i)"

text \<open>
  \<open>engagement_rate = (total_engagement / views * 100) if views > 0 else 0\<close>, then
  \<open>round(engagement_rate, 2)\<close>. The quotient of two integers is a float, \<open>100\<close> is
  converted to the float \<open>100.0\<close>, and \<open>round(0, 2)\<close> is the integer \<open>0\<close>.
\<close>

definition engagement_rate :: "int \<Rightarrow> int \<Rightarrow> int \<Rightarrow> int \<Rightarrow> pyexn + pyval" where
  "engagement_rate likes shares comments views =
     (let total_engagement = likes + shares + comments
      in if views > 0
         then bind_exn (int_truediv total_engagement views) (\<lambda>q.
              bind_exn (py_round2 (float_mul q (Fin 100))) (\<lambda>r. Inr (PyFloat r)))
         else Inr (PyInt 0))"

text \<open>The weights \<open>1.0\<close>, \<open>3.0\<close> and \<open>2.0\<close> are floats exactly; \<open>0.1\<close> is not.\<close>

definition popularity_weights :: "(string \<times> pyfloat) list" where
  "popularity_weights =
     [(''likes'', Fin 1), (''shares'', Fin 3), (''comments'', Fin 2),
      (''views'', float_lit (1 / 10))]"

text \<open>\<open>engagement[metric] * weight\<close>: the integer is converted to a float first.\<close>

definition weighted :: "pydict \<Rightarrow> string \<times> pyfloat \<Rightarrow> pyexn + pyfloat" where
  "weighted engagement mw =
     bind_exn (int_item engagement (fst mw)) (\<lambda>i.
     bind_exn (float_of_int i) (\<lambda>x. Inr (float_mul x (snd mw))))"

text \<open>
  \<open>sum\<close> over a generator: each term is computed and added to the running total, from
  left to right, starting from the integer \<open>0\<close>, which the first addition converts to
  \<open>0.0\<close>. (CPython from 3.12 on adds floats with a compensated summation, which can
  differ in the last bit; the model is the plain left-to-right sum.)
\<close>

fun sum_terms :: "pyfloat \<Rightarrow> (pyexn + pyfloat) list \<Rightarrow> pyexn + pyfloat" where
  "sum_terms acc [] = Inr acc"
| "sum_terms acc (t # ts) = bind_exn t (\<lambda>x. sum_terms (float_add acc x) ts)"

definition popularity_score :: "pydict \<Rightarrow> pyexn + pyfloat" where
  "popularity_score engagement =
     sum_terms (Fin 0) (map (weighted engagement) popularity_weights)"

definition post_size :: "nat \<Rightarrow> string" where
  "post_size char_count =
     (if char_count < 50 then ''short'' else if char_count < 200 then ''medium'' else ''long'')"

definition hashtag_count :: "pydict \<Rightarrow> pyexn + int" where
  "hashtag_count metadata =
     (case map_of metadata ''hashtags'' of
        None \<Rightarrow> Inr 0
      | Some (PyList tags) \<Rightarrow> Inr (int (length tags))
      | Some _ \<Rightarrow> Inl TypeError)"

definition content_metrics :: "string \<Rightarrow> int \<Rightarrow> pydict \<Rightarrow> pyval" where
  "content_metrics content hashtags metadata =
     PyDict [(''character_count'', PyInt (int (length content))),
             (''word_count'', PyInt (int (length (py_split content)))),
             (''hashtag_count'', PyInt hashtags),
             (''mention_count'',
                case map_of metadata ''mentions'' of None \<Rightarrow> PyInt 0 | Some v \<Rightarrow> v)]"

text \<open>The six derived fields are written into a copy of the post, in this order; a key
  that the post already has keeps its place and gets the new value.\<close>

definition add_derived ::
  "pydict \<Rightarrow> string \<Rightarrow> pyval \<Rightarrow> pyval \<Rightarrow> pyfloat \<Rightarrow> string \<Rightarrow> nat \<Rightarrow> pydict" where
  "add_derived post_data processed_at rate metrics score size_label post_hour =
     AList.update ''post_hour'' (PyInt (int post_hour))
       (AList.update ''post_size'' (PyStr size_label)
         (AList.update ''popularity_score'' (PyFloat score)
           (AList.update ''content_metrics'' metrics
             (AList.update ''engagement_rate'' rate
               (AList.update ''processed_at'' (PyStr processed_at) post_data)))))"

definition transform_post ::
  "(string \<Rightarrow> datetime option) \<Rightarrow> datetime \<Rightarrow> pydict \<Rightarrow> pyexn + pydict" where
  "transform_post fromiso now post_data =
     bind_exn (getitem post_data ''engagement'') (\<lambda>ev.
     bind_exn (case ev of PyDict d \<Rightarrow> Inr d | _ \<Rightarrow> Inl TypeError) (\<lambda>engagement.
     bind_exn (int_item engagement ''likes'') (\<lambda>likes.
     bind_exn (int_item engagement ''shares'') (\<lambda>shares.
     bind_exn (int_item engagement ''comments'') (\<lambda>comments.
     bind_exn (int_item engagement ''views'') (\<lambda>views.
     bind_exn (engagement_rate likes shares comments views) (\<lambda>rate.
     bind_exn (getitem post_data ''content'') (\<lambda>cv.
     bind_exn (case cv of PyStr c \<Rightarrow> Inr c | _ \<Rightarrow> Inl TypeError) (\<lambda>content.
     bind_exn (getitem post_data ''metadata'') (\<lambda>mv.
     bind_exn (case mv of PyDict d \<Rightarrow> Inr d | _ \<Rightarrow> Inl AttributeError) (\<lambda>metadata.
     bind_exn (hashtag_count metadata) (\<lambda>hashtags.
     bind_exn (popularity_score engagement) (\<lambda>score.
     bind_exn (getitem metadata ''timestamp'') (\<lambda>tv.
     bind_exn (case tv of PyStr t \<Rightarrow> Inr t | _ \<Rightarrow> Inl TypeError) (\<lambda>ts.
     bind_exn (case fromiso ts of None \<Rightarrow> Inl ValueError | Some t \<Rightarrow> Inr t) (\<lambda>timestamp.
       Inr (add_derived post_data (isoformat now) rate
              (content_metrics content hashtags metadata) score
              (post_size (length content)) (hour timestamp))))))))))))))))))"

section \<open>The consumer: state, aggregation and processing\<close>

record error_entry =
  err_post_id :: pyval
  err_errors :: "msg list"
  err_timestamp :: string

text \<open>
  The fields of \<open>SocialMediaConsumer\<close> that change while it runs. A \<open>defaultdict\<close> or
  \<open>Counter\<close> is an association list in insertion order. Keys are compared structurally;
  that Python also takes \<open>True\<close>, \<open>1\<close> and \<open>1.0\<close> for the same key is not modelled.
\<close>

record consumer =
  is_running :: bool
  processed_posts :: nat
  failed_posts :: nat
  processed_data :: "pydict list"
  platform_stats :: "(pyval \<times> nat) list"
  topic_stats :: "(pyval \<times> nat) list"
  engagement_stats :: "(pyval \<times> pyval list) list"
  sentiment_stats :: "(pyval \<times> nat) list"
  category_stats :: "(pyval \<times> nat) list"
  hourly_stats :: "(pyval \<times> nat) list"
  processing_times :: "pyfloat list"
  error_log :: "error_entry list"

definition init_consumer :: consumer where
  "init_consumer =
     \<lparr>is_running = False, processed_posts = 0, failed_posts = 0, processed_data = [],
      platform_stats = [], topic_stats = [], engagement_stats = [], sentiment_stats = [],
      category_stats = [], hourly_stats = [], processing_times = [], error_log = []\<rparr>"

text \<open>
  Equality of dictionary keys that can be hashed. Numbers are compared by value: \<open>True\<close>,
  \<open>1\<close> and \<open>1.0\<close> are one key. A \<open>nan\<close> is found by identity only, which the model does
  not have: it differs from every key.
\<close>

fun key_number :: "pyval \<Rightarrow> rat option" where
  "key_number (PyBool b) = Some (if b then 1 else 0)"
| "key_number (PyInt i) = Some (of_int i)"
| "key_number (PyFloat (Fin r)) = Some r"
| "key_number _ = None"

definition py_key_eq :: "pyval \<Rightarrow> pyval \<Rightarrow> bool" where
  "py_key_eq a b =
     (case (key_number a, key_number b) of
        (Some x, Some y) \<Rightarrow> x = y
      | (None, None) \<Rightarrow> a = b \<and> a \<noteq> PyFloat NaN
      | _ \<Rightarrow> False)"

text \<open>\<open>d[k] += 1\<close> on a \<open>defaultdict(int)\<close> or a \<open>Counter\<close>, and \<open>d[k].append(v)\<close> on a
  \<open>defaultdict(list)\<close>, for a key that can be hashed: an entry with an equal key keeps
  its key and its place, a new key goes to the end.\<close>

fun bump :: "pyval \<Rightarrow> (pyval \<times> nat) list \<Rightarrow> (pyval \<times> nat) list" where
  "bump k [] = [(k, 1)]"
| "bump k ((k', n) # d) =
     (if py_key_eq k' k then (k', n + 1) # d else (k', n) # bump k d)"

fun append_to :: "pyval \<Rightarrow> 'v \<Rightarrow> (pyval \<times> 'v list) list \<Rightarrow> (pyval \<times> 'v list) list" where
  "append_to k v [] = [(k, [v])]"
| "append_to k v ((k', vs) # d) =
     (if py_key_eq k' k then (k', vs @ [v]) # d else (k', vs) # append_to k v d)"

text \<open>A statement on the consumer's state: it returns the state it leaves behind and
  the exception it raised, if any. Statements in sequence stop at the first exception
  and keep what was written before it.\<close>

type_synonym stmt = "consumer \<Rightarrow> consumer \<times> pyexn option"

definition seq_stmt :: "stmt \<Rightarrow> stmt \<Rightarrow> stmt" where
  "seq_stmt f g s = (case f s of (s', None) \<Rightarrow> g s' | (s', Some e) \<Rightarrow> (s', Some e))"

text \<open>Reading a key for a dictionary subscript: the lookup raises \<open>KeyError\<close> when the
  post lacks the field, the subscript raises \<open>TypeError\<close> when the key cannot be hashed.\<close>

definition hashable_key :: "pyexn + pyval \<Rightarrow> pyexn + pyval" where
  "hashable_key m = bind_exn m (\<lambda>k. if py_hashable k then Inr k else Inl TypeError)"

definition count_platform :: "pydict \<Rightarrow> stmt" where
  "count_platform processed_post s =
     (case hashable_key (getitem processed_post ''platform'') of
        Inl e \<Rightarrow> (s, Some e)
      | Inr platform \<Rightarrow> (s\<lparr>platform_stats := bump platform (platform_stats s)\<rparr>, None))"

definition count_topic :: "pydict \<Rightarrow> stmt" where
  "count_topic processed_post s =
     (case hashable_key
             (Inr (case map_of processed_post ''topic'' of
                     None \<Rightarrow> PyStr ''unknown'' | Some v \<Rightarrow> v)) of
        Inl e \<Rightarrow> (s, Some e)
      | Inr topic \<Rightarrow> (s\<lparr>topic_stats := bump topic (topic_stats s)\<rparr>, None))"

definition record_engagement :: "pydict \<Rightarrow> stmt" where
  "record_engagement processed_post s =
     (case bind_exn (getitem processed_post ''engagement_rate'') (\<lambda>rate.
           bind_exn (hashable_key (getitem processed_post ''platform'')) (\<lambda>platform.
             Inr (platform, rate))) of
        Inl e \<Rightarrow> (s, Some e)
      | Inr (platform, rate) \<Rightarrow>
          (s\<lparr>engagement_stats := append_to platform rate (engagement_stats s)\<rparr>, None))"

definition count_sentiment :: "pydict \<Rightarrow> stmt" where
  "count_sentiment processed_post s =
     (case hashable_key (getitem processed_post ''sentiment'') of
        Inl e \<Rightarrow> (s, Some e)
      | Inr sentiment \<Rightarrow> (s\<lparr>sentiment_stats := bump sentiment (sentiment_stats s)\<rparr>, None))"

definition count_category :: "pydict \<Rightarrow> stmt" where
  "count_category processed_post s =
     (case hashable_key (getitem processed_post ''category'') of
        Inl e \<Rightarrow> (s, Some e)
      | Inr category \<Rightarrow> (s\<lparr>category_stats := bump category (category_stats s)\<rparr>, None))"

definition count_hour :: "pydict \<Rightarrow> stmt" where
  "count_hour processed_post s =
     (case hashable_key (getitem processed_post ''post_hour'') of
        Inl e \<Rightarrow> (s, Some e)
      | Inr h \<Rightarrow> (s\<lparr>hourly_stats := bump h (hourly_stats s)\<rparr>, None))"

definition update_statistics :: "pydict \<Rightarrow> stmt" where
  "update_statistics processed_post =
     seq_stmt (count_platform processed_post)
    (seq_stmt (count_topic processed_post)
    (seq_stmt (record_engagement processed_post)
    (seq_stmt (count_sentiment processed_post)
    (seq_stmt (count_category processed_post)
              (count_hour processed_post)))))"

text \<open>
  What one call of \<open>process_post\<close> reads from the clock: the time \<open>transform_post\<close>
  stamps on the post, the time an error-log entry gets, and the elapsed time that is
  appended to \<open>processing_times\<close>.
\<close>

record tick =
  now_transform :: datetime
  now_error :: datetime
  elapsed :: pyfloat

definition log_failure :: "pydict \<Rightarrow> msg list \<Rightarrow> tick \<Rightarrow> consumer \<Rightarrow> consumer" where
  "log_failure post_data errors tk s =
     s\<lparr>failed_posts := failed_posts s + 1,
       error_log := error_log s @
         [\<lparr>err_post_id =
              (case map_of post_data ''post_id'' of None \<Rightarrow> PyStr ''unknown'' | Some v \<Rightarrow> v),
           err_errors = errors,
           err_timestamp = isoformat (now_error tk)\<rparr>]\<rparr>"

text \<open>
  \<open>process_post\<close> returns the processed post, or \<open>None\<close> after a failure. On a value that
  is not a dictionary, validation fails, \<open>failed_posts\<close> is incremented, and building the
  log entry raises \<open>AttributeError\<close> at \<open>post_data.get\<close>; the handler increments
  \<open>failed_posts\<close> again and raises the same way, out of \<open>process_post\<close>.
\<close>

definition process_post ::
  "(string \<Rightarrow> datetime option) \<Rightarrow> tick \<Rightarrow> pyval \<Rightarrow> consumer
     \<Rightarrow> consumer \<times> (pyexn + pydict option)" where
  "process_post fromiso tk post s =
     (case post of
        PyDict post_data \<Rightarrow>
          (case validate_post fromiso post of
             (False, validation_errors) \<Rightarrow>
               (log_failure post_data validation_errors tk s, Inr None)
           | (True, _) \<Rightarrow>
               (case transform_post fromiso (now_transform tk) post_data of
                  Inl e \<Rightarrow> (log_failure post_data [ExceptionText e] tk s, Inr None)
                | Inr processed_post \<Rightarrow>
                    (case update_statistics processed_post s of
                       (s', Some e) \<Rightarrow>
                         (log_failure post_data [ExceptionText e] tk s', Inr None)
                     | (s', None) \<Rightarrow>
                         (s'\<lparr>processed_data := processed_data s' @ [processed_post],
                             processed_posts := processed_posts s' + 1,
                             processing_times := processing_times s' @ [elapsed tk]\<rparr>,
                          Inr (Some processed_post)))))
      | _ \<Rightarrow> (s\<lparr>failed_posts := failed_posts s + 2\<rparr>, Inl AttributeError))"

text \<open>A run of the consumer: the posts taken from the queue are processed one after the
  other; the consumption loop discards what \<open>process_post\<close> returns or raises.\<close>

fun process_all ::
  "(string \<Rightarrow> datetime option) \<Rightarrow> (tick \<times> pyval) list \<Rightarrow> consumer \<Rightarrow> consumer" where
  "process_all fromiso [] s = s"
| "process_all fromiso ((tk, post) # rest) s =
     process_all fromiso rest (fst (process_post fromiso tk post s))"

section \<open>The consumer: analytics\<close>

text \<open>
  \<open>sorted(xs, key=..., reverse=True)\<close>. Python computes the key of every element first
  and then sorts stably on the keys, comparing them with \<open><\<close>; with \<open>reverse=True\<close> the
  result is in descending order and elements with equal keys keep their original order.
  On keys that \<open><\<close> orders totally that result is unique, and it is the one that the
  insertion below builds: an element goes in front of the first element whose key is
  not greater than its own. (With a \<open>NaN\<close> among the keys the result depends on the
  sorting algorithm; \<open>transform_post\<close> produces no \<open>NaN\<close>.)
\<close>

fun insort_desc :: "pyfloat \<times> 'a \<Rightarrow> (pyfloat \<times> 'a) list \<Rightarrow> (pyfloat \<times> 'a) list" where
  "insort_desc x [] = [x]"
| "insort_desc x (y # ys) =
     (if float_lt (fst x) (fst y) then y # insort_desc x ys else x # y # ys)"

definition py_sorted_desc :: "(pyfloat \<times> 'a) list \<Rightarrow> 'a list" where
  "py_sorted_desc kxs = map snd (foldr insort_desc kxs [])"

text \<open>Applying a function that may raise to every element, from left to right.\<close>

fun map_exn :: "('a \<Rightarrow> pyexn + 'b) \<Rightarrow> 'a list \<Rightarrow> pyexn + 'b list" where
  "map_exn f [] = Inr []"
| "map_exn f (x # xs) = bind_exn (f x) (\<lambda>y. bind_exn (map_exn f xs) (\<lambda>ys. Inr (y # ys)))"

text \<open>The sort key \<open>x['popularity_score']\<close>. Every processed post carries a float there;
  on another value the model raises \<open>TypeError\<close>.\<close>

definition score_key :: "pydict \<Rightarrow> pyexn + pyfloat \<times> pydict" where
  "score_key x =
     bind_exn (getitem x ''popularity_score'') (\<lambda>v.
       case v of PyFloat f \<Rightarrow> Inr (f, x) | _ \<Rightarrow> Inl TypeError)"

definition top_posts :: "pydict list \<Rightarrow> pyexn + pydict list" where
  "top_posts data = bind_exn (map_exn score_key data) (\<lambda>kxs. Inr (take 5 (py_sorted_desc kxs)))"

record top_entry =
  top_post_id :: pyval
  top_platform :: pyval
  top_popularity_score :: pyval
  top_engagement_rate :: pyval

definition top_entry_of :: "pydict \<Rightarrow> pyexn + top_entry" where
  "top_entry_of post =
     bind_exn (getitem post ''post_id'') (\<lambda>i.
     bind_exn (getitem post ''platform'') (\<lambda>pl.
     bind_exn (getitem post ''popularity_score'') (\<lambda>sc.
     bind_exn (getitem post ''engagement_rate'') (\<lambda>er.
       Inr \<lparr>top_post_id = i, top_platform = pl, top_popularity_score = sc,
            top_engagement_rate = er\<rparr>))))"

text \<open>\<open>round((processed / (processed + failed)) * 100, 2)\<close>.\<close>

definition success_rate_of :: "nat \<Rightarrow> nat \<Rightarrow> pyexn + pyfloat" where
  "success_rate_of processed failed =
     bind_exn (int_truediv (int processed) (int (processed + failed))) (\<lambda>q.
       py_round2 (float_mul q (Fin 100)))"

text \<open>
  The snapshot that \<open>get_analytics\<close> returns: either the dictionary with the single key
  \<open>message\<close>, or the analytics. The two averages in the analytics (engagement rate by
  platform, processing time) are left out of the model: they are computed before the
  fields below, raise nothing, and no other field depends on them.
\<close>

record analytics =
  total_processed :: nat
  total_failed :: nat
  success_rate :: pyfloat
  platform_distribution :: "(pyval \<times> nat) list"
  topic_distribution :: "(pyval \<times> nat) list"
  sentiment_distribution :: "(pyval \<times> nat) list"
  category_distribution :: "(pyval \<times> nat) list"
  hourly_post_distribution :: "(pyval \<times> nat) list"
  top_performing_posts :: "top_entry list"
  total_errors :: nat
  recent_errors :: "error_entry list"

datatype snapshot = NoDataMessage | Analytics analytics

text \<open>\<open>xs[-5:]\<close>.\<close>

definition last5 :: "'a list \<Rightarrow> 'a list" where
  "last5 xs = drop (length xs - 5) xs"

definition get_analytics :: "consumer \<Rightarrow> pyexn + snapshot" where
  "get_analytics s =
     (if processed_data s = [] then Inr NoDataMessage
      else
        bind_exn (top_posts (processed_data s)) (\<lambda>top.
        bind_exn (success_rate_of (processed_posts s) (failed_posts s)) (\<lambda>rate.
        bind_exn (map_exn top_entry_of top) (\<lambda>entries.
          Inr (Analytics
            \<lparr>total_processed = processed_posts s,
             total_failed = failed_posts s,
             success_rate = rate,
             platform_distribution = platform_stats s,
             topic_distribution = topic_stats s,
             sentiment_distribution = sentiment_stats s,
             category_distribution = category_stats s,
             hourly_post_distribution = hourly_stats s,
             top_performing_posts = entries,
             total_errors = length (error_log s),
             recent_errors = last5 (error_log s)\<rparr>)))))"

text \<open>\<open>get_stats\<close>; the size of the queue is read from the queue and is a parameter here.
  Its success rate is the integer \<open>0\<close> when nothing was attempted.\<close>

record stats =
  stats_processed_posts :: nat
  stats_failed_posts :: nat
  stats_is_running :: bool
  stats_queue_size :: nat
  stats_success_rate :: pyval

definition get_stats :: "consumer \<Rightarrow> nat \<Rightarrow> pyexn + stats" where
  "get_stats s qsize =
     bind_exn
       (if processed_posts s + failed_posts s > 0
        then bind_exn (success_rate_of (processed_posts s) (failed_posts s))
               (\<lambda>r. Inr (PyFloat r))
        else Inr (PyInt 0))
       (\<lambda>rate. Inr \<lparr>stats_processed_posts = processed_posts s,
                    stats_failed_posts = failed_posts s,
                    stats_is_running = is_running s,
                    stats_queue_size = qsize,
                    stats_success_rate = rate\<rparr>)"

section \<open>The producer\<close>

subsection \<open>Generating a post\<close>

definition platforms :: "string list" where
  "platforms = [''twitter'', ''facebook'', ''instagram'', ''linkedin'', ''tiktok'']"

definition usernames :: "string list" where
  "usernames =
     [''tech_enthusiast'', ''data_scientist'', ''social_guru'', ''content_creator'',
      ''digital_nomad'', ''startup_founder'', ''marketing_pro'', ''developer_life'',
      ''business_insider'', ''creative_mind'', ''innovation_hub'', ''trend_setter'']"

text \<open>A template is the text before and the text after its placeholder \<open>{topic}\<close>.\<close>

definition content_templates :: "(string \<times> string) list" where
  "content_templates =
     [(''Just discovered an amazing new tool for '', ''! #tech #innovation''),
      (''Thoughts on the latest trends in '', ''? Share your insights below!''),
      (''Breaking: Major breakthrough in '', '' industry announced today''),
      (''Tutorial: How to master '', '' in 5 simple steps''),
      (''Weekly roundup: Top '', '' news you shouldn'' @ [CHR 0x27] @ ''t miss''),
      (''Behind the scenes: Our journey with '', '' development''),
      (''Quick tip: Boost your '', '' productivity with this simple hack''),
      (''Community question: What'' @ [CHR 0x27] @ ''s your favorite '', '' resource?'')]"

definition topics :: "string list" where
  "topics =
     [''artificial intelligence'', ''machine learning'', ''data science'',
      ''cloud computing'', ''cybersecurity'', ''blockchain'', ''mobile development'',
      ''web development'', ''digital marketing'', ''social media'', ''entrepreneurship'']"

definition engagement_multiplier :: "(string \<times> pyfloat) list" where
  "engagement_multiplier =
     [(''twitter'', Fin 1), (''facebook'', Fin (3 / 2)), (''instagram'', Fin 2),
      (''linkedin'', float_lit (4 / 5)), (''tiktok'', Fin 3)]"

definition hashtag_pools :: "(string \<times> string list) list" where
  "hashtag_pools =
     [(''artificial intelligence'', [''#AI'', ''#MachineLearning'', ''#Tech'', ''#Innovation'']),
      (''machine learning'', [''#ML'', ''#DataScience'', ''#AI'', ''#Analytics'']),
      (''data science'', [''#DataScience'', ''#BigData'', ''#Analytics'', ''#ML'']),
      (''cloud computing'', [''#Cloud'', ''#AWS'', ''#Azure'', ''#Tech'']),
      (''cybersecurity'', [''#CyberSecurity'', ''#InfoSec'', ''#Security'', ''#Tech'']),
      (''blockchain'', [''#Blockchain'', ''#Crypto'', ''#Web3'', ''#Innovation'']),
      (''mobile development'', [''#MobileDev'', ''#iOS'', ''#Android'', ''#Tech'']),
      (''web development'', [''#WebDev'', ''#JavaScript'', ''#Frontend'', ''#Backend'']),
      (''digital marketing'',
         [''#DigitalMarketing'', ''#Marketing'', ''#SocialMedia'', ''#Growth'']),
      (''social media'', [''#SocialMedia'', ''#Marketing'', ''#Content'', ''#Engagement'']),
      (''entrepreneurship'', [''#Startup'', ''#Entrepreneur'', ''#Business'', ''#Innovation''])]"

text \<open>
  What one call of \<open>generate_post\<close> draws from the random generator and reads from the
  clock. A \<open>random.choice\<close> is the index it picks, \<open>random.sample\<close> the list of indices it
  picks, \<open>random.uniform\<close> the number it returns. \<open>post_time\<close> is the result of
  \<open>now - time_offset\<close>.
\<close>

record draws =
  clock_seconds :: int
  user_id_draw :: int
  username_draw :: nat
  platform_draw :: nat
  topic_draw :: nat
  template_draw :: nat
  base_engagement :: int
  post_time :: datetime
  likes_factor :: rat
  shares_factor :: rat
  comments_factor :: rat
  views_factor :: rat
  verified_user :: bool
  has_media :: bool
  hashtag_draw :: "nat list"
  mentions_draw :: int
  sentiment_draw :: nat

text \<open>The ranges of the draws. The bounds of a \<open>random.uniform\<close> are float literals.\<close>

definition draws_in_range :: "draws \<Rightarrow> bool" where
  "draws_in_range d \<longleftrightarrow>
     1000 \<le> user_id_draw d \<and> user_id_draw d \<le> 9999 \<and>
     username_draw d < length usernames \<and>
     platform_draw d < length platforms \<and>
     topic_draw d < length topics \<and>
     template_draw d < length content_templates \<and>
     10 \<le> base_engagement d \<and> base_engagement d \<le> 1000 \<and>
     round_binary64 (4 / 5) \<le> likes_factor d \<and> likes_factor d \<le> round_binary64 (6 / 5) \<and>
     1 / 2 \<le> shares_factor d \<and> shares_factor d \<le> 3 / 2 \<and>
     round_binary64 (3 / 10) \<le> comments_factor d \<and> comments_factor d \<le> 2 \<and>
     5 \<le> views_factor d \<and> views_factor d \<le> 15 \<and>
     1 \<le> length (hashtag_draw d) \<and> length (hashtag_draw d) \<le> 3 \<and>
     distinct (hashtag_draw d) \<and> list_all (\<lambda>i. i < 4) (hashtag_draw d) \<and>
     0 \<le> mentions_draw d \<and> mentions_draw d \<le> 3 \<and>
     sentiment_draw d < 3"

text \<open>\<open>str.lower\<close> on the code points below 256, and \<open>sub in s\<close>.\<close>

definition py_lower_char :: "char \<Rightarrow> char" where
  "py_lower_char c =
     (let n = (of_char c :: nat)
      in if (65 \<le> n \<and> n \<le> 90) \<or> (192 \<le> n \<and> n \<le> 222 \<and> n \<noteq> 215)
         then char_of (n + 32) else c)"

definition py_lower :: "string \<Rightarrow> string" where
  "py_lower s = map py_lower_char s"

fun starts_with :: "string \<Rightarrow> string \<Rightarrow> bool" where
  "starts_with s [] = True"
| "starts_with [] (p # ps) = False"
| "starts_with (c # cs) (p # ps) = (c = p \<and> starts_with cs ps)"

fun contains :: "string \<Rightarrow> string \<Rightarrow> bool" where
  "contains [] sub = (sub = [])"
| "contains (c # cs) sub = (starts_with (c # cs) sub \<or> contains cs sub)"

definition categorize_content :: "string \<Rightarrow> string \<Rightarrow> string" where
  "categorize_content content topic =
     (if contains (py_lower content) ''tutorial'' \<or> contains (py_lower content) ''how to''
      then ''educational''
      else if contains (py_lower content) ''breaking'' \<or> contains (py_lower content) ''news''
      then ''news''
      else if contains (py_lower content) ''question'' \<or> contains content ''?''
      then ''discussion''
      else if contains (py_lower content) ''tip'' \<or> contains (py_lower content) ''hack''
      then ''advice''
      else ''general'')"

definition generate_hashtags :: "string \<Rightarrow> nat list \<Rightarrow> string list" where
  "generate_hashtags topic picks =
     (let relevant_hashtags =
            (case map_of hashtag_pools topic of
               None \<Rightarrow> [''#Tech'', ''#Innovation''] | Some pool \<Rightarrow> pool)
      in map (\<lambda>i. relevant_hashtags ! i) picks)"

text \<open>\<open>int(x)\<close> on a float truncates towards zero.\<close>

definition int_of_float :: "pyfloat \<Rightarrow> pyexn + int" where
  "int_of_float x =
     (case x of
        Fin r \<Rightarrow> Inr (if 0 \<le> r then \<lfloor>r\<rfloor> else \<lceil>r\<rceil>)
      | NaN \<Rightarrow> Inl ValueError
      | _ \<Rightarrow> Inl OverflowError)"

text \<open>\<open>int(base_engagement * multiplier * c * factor)\<close>, multiplied from the left; the
  entry for likes has no constant \<open>c\<close>.\<close>

definition scaled_count :: "int \<Rightarrow> pyfloat \<Rightarrow> pyfloat option \<Rightarrow> rat \<Rightarrow> pyexn + int" where
  "scaled_count base multiplier c factor =
     bind_exn (float_of_int base) (\<lambda>b.
       let bm = float_mul b multiplier;
           bmc = (case c of None \<Rightarrow> bm | Some k \<Rightarrow> float_mul bm k)
       in int_of_float (float_mul bmc (Fin factor)))"

definition generate_post :: "nat \<Rightarrow> draws \<Rightarrow> pyexn + pydict" where
  "generate_post posts_generated d =
     (let post_id = ''post_'' @ show_nat (posts_generated + 1) @ ''_'' @ show_int (clock_seconds d);
          username = usernames ! username_draw d;
          platform = platforms ! platform_draw d;
          topic = topics ! topic_draw d;
          template = content_templates ! template_draw d;
          content = fst template @ topic @ snd template;
          multiplier =
            (case map_of engagement_multiplier platform of None \<Rightarrow> Fin 1 | Some m \<Rightarrow> m)
      in
      bind_exn (scaled_count (base_engagement d) multiplier None (likes_factor d)) (\<lambda>likes.
      bind_exn (scaled_count (base_engagement d) multiplier (Some (float_lit (1 / 10)))
                  (shares_factor d)) (\<lambda>shares.
      bind_exn (scaled_count (base_engagement d) multiplier (Some (float_lit (1 / 20)))
                  (comments_factor d)) (\<lambda>comments.
      bind_exn (scaled_count (base_engagement d) multiplier (Some (Fin 10))
                  (views_factor d)) (\<lambda>views.
        Inr [(''post_id'', PyStr post_id),
             (''user_id'', PyInt (user_id_draw d)),
             (''username'', PyStr username),
             (''platform'', PyStr platform),
             (''content'', PyStr content),
             (''topic'', PyStr topic),
             (''engagement'',
                PyDict [(''likes'', PyInt likes), (''shares'', PyInt shares),
                        (''comments'', PyInt comments), (''views'', PyInt views)]),
             (''metadata'',
                PyDict [(''timestamp'', PyStr (isoformat (post_time d))),
                        (''language'', PyStr ''en''),
                        (''verified_user'', PyBool (verified_user d)),
                        (''has_media'', PyBool (has_media d)),
                        (''hashtags'',
                           PyList (map PyStr (generate_hashtags topic (hashtag_draw d)))),
                        (''mentions'', PyInt (mentions_draw d))]),
             (''sentiment'',
                PyStr ([''positive'', ''neutral'', ''negative''] ! sentiment_draw d)),
             (''category'', PyStr (categorize_content content topic))])))))"

subsection \<open>The production loop\<close>

text \<open>
  The producer shares the queue with the consumer thread, and \<open>stop_production\<close> may be
  called from another thread. The loop is modelled against what it observes of them: one
  event per iteration, with the draws of that iteration's \<open>generate_post\<close>, whether
  \<open>put\<close> returned or raised \<open>queue.Full\<close> after its timeout, and whether
  \<open>stop_production\<close> was called before the loop condition is tested again. The state
  records what the loop did: the posts it put on the queue and the arguments of its
  calls of \<open>time.sleep\<close> that returned, both in order, and the exception that left the
  loop, if any.

  \<open>time.sleep\<close> belongs to the Python library. It raises \<open>ValueError\<close> on a negative
  duration and on \<open>nan\<close>, \<open>OverflowError\<close> on a duration that does not fit the time type
  of C, and the operating system may refuse a duration of centuries. It is a parameter
  \<open>sleep\<close> of the producer's functions: \<open>None\<close> is a call that returns, \<open>Some e\<close> a call
  that raises \<open>e\<close>.
\<close>

datatype put_result = Put_done | Put_full

record event =
  ev_draws :: draws
  ev_put :: put_result
  ev_stop :: bool

record producer =
  posts_generated :: nat
  producing :: bool
  enqueued :: "pydict list"
  slept :: "pyfloat list"
  raised :: "pyexn option"

definition init_producer :: producer where
  "init_producer =
     \<lparr>posts_generated = 0, producing = False, enqueued = [], slept = [], raised = None\<rparr>"

text \<open>
  One iteration of the \<open>while\<close> body, for a loop condition that holds. An exception of
  \<open>generate_post\<close> or of \<open>time.sleep\<close> leaves the loop: it is logged and raised again, and
  the \<open>finally\<close> clause resets \<open>is_running\<close>. The count of posts is advanced after \<open>put\<close>
  has returned and before the sleep.
\<close>

definition produce_step ::
  "(pyfloat \<Rightarrow> pyexn option) \<Rightarrow> pyfloat \<Rightarrow> event \<Rightarrow> producer \<Rightarrow> producer" where
  "produce_step sleep interval ev s =
     (case generate_post (posts_generated s) (ev_draws ev) of
        Inl e \<Rightarrow> s\<lparr>producing := False, raised := Some e\<rparr>
      | Inr post_data \<Rightarrow>
          (case ev_put ev of
             Put_done \<Rightarrow>
               (case sleep interval of
                  None \<Rightarrow>
                    s\<lparr>enqueued := enqueued s @ [post_data],
                      posts_generated := posts_generated s + 1,
                      slept := slept s @ [interval],
                      producing := \<not> ev_stop ev\<rparr>
                | Some e \<Rightarrow>
                    s\<lparr>enqueued := enqueued s @ [post_data],
                      posts_generated := posts_generated s + 1,
                      producing := False, raised := Some e\<rparr>)
           | Put_full \<Rightarrow>
               (case sleep (float_mul interval (Fin 2)) of
                  None \<Rightarrow>
                    s\<lparr>slept := slept s @ [float_mul interval (Fin 2)],
                      producing := \<not> ev_stop ev\<rparr>
                | Some e \<Rightarrow> s\<lparr>producing := False, raised := Some e\<rparr>)))"

text \<open>
  The loop over the events of a run. It ends, with \<open>is_running\<close> reset, when the loop
  condition fails or an exception leaves the loop. When the events run out first, the
  state is that of a loop still running: against a queue that stays full the loop does
  not end by itself.
\<close>

fun production_loop ::
  "(pyfloat \<Rightarrow> pyexn option) \<Rightarrow> nat \<Rightarrow> pyfloat \<Rightarrow> event list \<Rightarrow> producer \<Rightarrow> producer" where
  "production_loop sleep max_posts interval [] s =
     (if producing s \<and> posts_generated s < max_posts then s else s\<lparr>producing := False\<rparr>)"
| "production_loop sleep max_posts interval (ev # evs) s =
     (if producing s \<and> posts_generated s < max_posts
      then production_loop sleep max_posts interval evs (produce_step sleep interval ev s)
      else s\<lparr>producing := False\<rparr>)"

definition start_production ::
  "(pyfloat \<Rightarrow> pyexn option) \<Rightarrow> nat \<Rightarrow> pyfloat \<Rightarrow> event list \<Rightarrow> producer \<Rightarrow> producer" where
  "start_production sleep max_posts interval evs s =
     production_loop sleep max_posts interval evs (s\<lparr>producing := True\<rparr>)"

section \<open>Sample data\<close>

text \<open>A parser that accepts one timestamp, and a post as the producer generates them;
  the properties below are instantiated on them.\<close>

definition sample_fromiso :: "string \<Rightarrow> datetime option" where
  "sample_fromiso s =
     (if s = ''2024-05-17T09:30:00''
      then Some \<lparr>year = 2024, month = 5, day = 17, hour = 9, minute = 30, second = 0,
                 microsecond = 0\<rparr>
      else None)"

definition sample_engagement :: pyval where
  "sample_engagement =
     PyDict [(''likes'', PyInt 120), (''shares'', PyInt 8), (''comments'', PyInt 15),
             (''views'', PyInt 4000)]"

definition sample_metadata :: pyval where
  "sample_metadata =
     PyDict [(''timestamp'', PyStr ''2024-05-17T09:30:00''), (''language'', PyStr ''en''),
             (''verified_user'', PyBool True), (''has_media'', PyBool False),
             (''hashtags'', PyList [PyStr ''#AI'', PyStr ''#Tech'']), (''mentions'', PyInt 2)]"

definition sample_post :: pydict where
  "sample_post =
     [(''post_id'', PyStr ''post_1_1715938200''), (''user_id'', PyInt 4711),
      (''username'', PyStr ''data_scientist''), (''platform'', PyStr ''twitter''),
      (''content'', PyStr ''Tutorial: How to master data science in 5 simple steps''),
      (''topic'', PyStr ''data science''), (''engagement'', sample_engagement),
      (''metadata'', sample_metadata), (''sentiment'', PyStr ''positive''),
      (''category'', PyStr ''educational'')]"

definition sample_without_username :: pydict where
  "sample_without_username = filter (\<lambda>kv. fst kv \<noteq> ''username'') sample_post"

definition msgs_of :: "check \<Rightarrow> pydict \<Rightarrow> msg list" where
  "msgs_of c p = (case c p of Inl e \<Rightarrow> [] | Inr ms \<Rightarrow> ms)"

definition raises :: "check \<Rightarrow> pydict \<Rightarrow> pyexn option" where
  "raises c p = (case c p of Inl e \<Rightarrow> Some e | Inr ms \<Rightarrow> None)"









definition sample_now :: datetime where
  "sample_now = \<lparr>year = 2024, month = 5, day = 17, hour = 10, minute = 0, second = 5,
                  microsecond = 250000\<rparr>"

definition zero_engagement_post :: pydict where
  "zero_engagement_post =
     AList.update ''engagement''
       (PyDict [(''likes'', PyInt 0), (''shares'', PyInt 0), (''comments'', PyInt 0),
                (''views'', PyInt 10)])
       sample_post"

fun nonneg_number :: "pyval \<Rightarrow> bool" where
  "nonneg_number (PyInt i) = (0 \<le> i)"
| "nonneg_number (PyFloat (Fin r)) = (0 \<le> r)"
| "nonneg_number (PyFloat PInf) = True"
| "nonneg_number _ = False"

definition sample_metrics :: pyval where
  "sample_metrics =
     PyDict [(''character_count'', PyInt 54), (''word_count'', PyInt 10),
             (''hashtag_count'', PyInt 2), (''mention_count'', PyInt 2)]"

definition sample_processed :: pydict where
  "sample_processed =
     add_derived sample_post ''2024-05-17T10:00:05.250000''
       (PyFloat (Fin (8038925334856335 / 2251799813685248))) sample_metrics (Fin 574)
       ''medium'' 9"

definition zero_engagement_processed :: pydict where
  "zero_engagement_processed =
     add_derived zero_engagement_post ''2024-05-17T10:00:05.250000''
       (PyFloat (Fin 0)) sample_metrics (Fin 1) ''medium'' 9"

text \<open>\<open>x <= y\<close> on floats.\<close>

fun float_le :: "pyfloat \<Rightarrow> pyfloat \<Rightarrow> bool" where
  "float_le (Fin a) (Fin b) = (a \<le> b)"
| "float_le (Fin a) PInf = True"
| "float_le NInf (Fin b) = True"
| "float_le NInf PInf = True"
| "float_le PInf PInf = True"
| "float_le NInf NInf = True"
| "float_le _ _ = False"

fun nonneg_float :: "pyfloat \<Rightarrow> bool" where
  "nonneg_float (Fin r) = (0 \<le> r)"
| "nonneg_float PInf = True"
| "nonneg_float _ = False"

text \<open>The weighted sum \<open>0 + likes * 1.0 + shares * 3.0 + comments * 2.0 + views * 0.1\<close>,
  written out in float arithmetic, with nothing rounded to decimals.\<close>

definition weighted_engagement :: "int \<Rightarrow> int \<Rightarrow> int \<Rightarrow> int \<Rightarrow> pyexn + pyfloat" where
  "weighted_engagement likes shares comments views =
     bind_exn (float_of_int likes) (\<lambda>l.
     bind_exn (float_of_int shares) (\<lambda>s.
     bind_exn (float_of_int comments) (\<lambda>c.
     bind_exn (float_of_int views) (\<lambda>v.
       Inr (float_add
             (float_add
               (float_add (float_add (Fin 0) (float_mul l (Fin 1))) (float_mul s (Fin 3)))
               (float_mul c (Fin 2)))
             (float_mul v (float_lit (1 / 10))))))))"


definition engagement_of :: "int \<Rightarrow> int \<Rightarrow> int \<Rightarrow> int \<Rightarrow> pydict" where
  "engagement_of l s c v =
     [(''likes'', PyInt l), (''shares'', PyInt s), (''comments'', PyInt c), (''views'', PyInt v)]"



definition more_shares_post :: pydict where
  "more_shares_post =
     AList.update ''engagement'' (PyDict (engagement_of 120 9 15 4000)) sample_post"

definition more_shares_processed :: pydict where
  "more_shares_processed =
     add_derived more_shares_post ''2024-05-17T10:00:05.250000''
       (PyFloat (float_lit (18 / 5))) sample_metrics (Fin 577) ''medium'' 9"

text \<open>The popularity score stored in a processed post, for stating the ranking.\<close>

definition score_of :: "pydict \<Rightarrow> pyfloat" where
  "score_of x = (case map_of x ''popularity_score'' of Some (PyFloat f) \<Rightarrow> f | _ \<Rightarrow> NaN)"

text \<open>What \<open>get_analytics\<close> reads from a processed post.\<close>

definition ranked_fields :: "pydict \<Rightarrow> bool" where
  "ranked_fields x \<longleftrightarrow>
     nonneg_float (score_of x) \<and> map_of x ''post_id'' \<noteq> None \<and>
     map_of x ''platform'' \<noteq> None \<and> map_of x ''engagement_rate'' \<noteq> None"

definition field_or_none :: "pydict \<Rightarrow> string \<Rightarrow> pyval" where
  "field_or_none x k = (case map_of x k of None \<Rightarrow> PyNone | Some v \<Rightarrow> v)"

definition entry_of :: "pydict \<Rightarrow> top_entry" where
  "entry_of x =
     \<lparr>top_post_id = field_or_none x ''post_id'', top_platform = field_or_none x ''platform'',
      top_popularity_score = field_or_none x ''popularity_score'',
      top_engagement_rate = field_or_none x ''engagement_rate''\<rparr>"

text \<open>The state is consistent when the counter of processed posts is the length of the
  list of processed posts and every post in the list has the fields the ranking reads.\<close>

definition consistent :: "consumer \<Rightarrow> bool" where
  "consistent s \<longleftrightarrow>
     length (processed_data s) = processed_posts s \<and> list_all ranked_fields (processed_data s)"

text \<open>A post whose topic, if it has one, can be used as a dictionary key.\<close>

definition hashable_topic :: "pyval \<Rightarrow> bool" where
  "hashable_topic post =
     (case post of
        PyDict p \<Rightarrow> (case map_of p ''topic'' of None \<Rightarrow> True | Some v \<Rightarrow> py_hashable v)
      | _ \<Rightarrow> True)"

definition platform_total :: "consumer \<Rightarrow> nat" where
  "platform_total s = sum_list (map snd (platform_stats s))"

definition ranking :: "pydict list \<Rightarrow> pydict list" where
  "ranking data = py_sorted_desc (map (\<lambda>x. (score_of x, x)) data)"

definition sample_tick :: tick where
  "sample_tick =
     \<lparr>now_transform = sample_now,
      now_error = \<lparr>year = 2024, month = 5, day = 17, hour = 10, minute = 0, second = 6,
                   microsecond = 0\<rparr>,
      elapsed = Fin (1 / 1024)\<rparr>"

definition list_topic_post :: pydict where
  "list_topic_post = AList.update ''topic'' (PyList []) sample_post"

definition list_topic_processed :: pydict where
  "list_topic_processed =
     add_derived list_topic_post ''2024-05-17T10:00:05.250000''
       (PyFloat (Fin (8038925334856335 / 2251799813685248))) sample_metrics (Fin 574)
       ''medium'' 9"

definition tie_post :: pydict where
  "tie_post = AList.update ''username'' (PyStr ''social_guru'') sample_post"

definition tie_processed :: pydict where
  "tie_processed =
     add_derived tie_post ''2024-05-17T10:00:05.250000''
       (PyFloat (Fin (8038925334856335 / 2251799813685248))) sample_metrics (Fin 574)
       ''medium'' 9"

definition mixed_run :: "(tick \<times> pyval) list" where
  "mixed_run = [(sample_tick, PyDict sample_post), (sample_tick, PyDict sample_without_username)]"

definition failed_run :: "(tick \<times> pyval) list" where
  "failed_run = [(sample_tick, PyDict sample_without_username)]"

definition ranked_run :: "(tick \<times> pyval) list" where
  "ranked_run =
     [(sample_tick, PyDict sample_post), (sample_tick, PyDict more_shares_post),
      (sample_tick, PyDict tie_post)]"

definition sample_draws :: draws where
  "sample_draws =
     \<lparr>clock_seconds = 1715938200, user_id_draw = 4711, username_draw = 1, platform_draw = 0,
      topic_draw = 2, template_draw = 3, base_engagement = 100,
      post_time = \<lparr>year = 2024, month = 5, day = 17, hour = 9, minute = 30, second = 0,
                   microsecond = 0\<rparr>,
      likes_factor = 1, shares_factor = 1, comments_factor = 1, views_factor = 10,
      verified_user = True, has_media = False, hashtag_draw = [0, 3], mentions_draw = 2,
      sentiment_draw = 0\<rparr>"

definition other_draws :: draws where
  "other_draws = sample_draws\<lparr>user_id_draw := 5000\<rparr>"

definition generated_sample :: pydict where
  "generated_sample =
     [(''post_id'', PyStr ''post_1_1715938200''), (''user_id'', PyInt 4711),
      (''username'', PyStr ''data_scientist''), (''platform'', PyStr ''twitter''),
      (''content'', PyStr ''Tutorial: How to master data science in 5 simple steps''),
      (''topic'', PyStr ''data science''),
      (''engagement'',
         PyDict [(''likes'', PyInt 100), (''shares'', PyInt 10), (''comments'', PyInt 5),
                 (''views'', PyInt 10000)]),
      (''metadata'',
         PyDict [(''timestamp'', PyStr ''2024-05-17T09:30:00''), (''language'', PyStr ''en''),
                 (''verified_user'', PyBool True), (''has_media'', PyBool False),
                 (''hashtags'', PyList [PyStr ''#DataScience'', PyStr ''#ML'']),
                 (''mentions'', PyInt 2)]),
      (''sentiment'', PyStr ''positive''), (''category'', PyStr ''educational'')]"

definition generated_other :: pydict where
  "generated_other = AList.update ''user_id'' (PyInt 5000) generated_sample"

text \<open>
  The iterations that a run of the loop executes, for a quota of posts still to be put on
  the queue and no request to stop: every event until the quota is used up, where only an
  iteration whose \<open>put\<close> returned uses up quota.
\<close>

fun executed :: "nat \<Rightarrow> event list \<Rightarrow> event list" where
  "executed quota [] = []"
| "executed quota (ev # evs) =
     (if quota = 0 then []
      else ev # executed (if ev_put ev = Put_done then quota - 1 else quota) evs)"

text \<open>The draws of the iterations whose \<open>put\<close> returned, and the sleep of an iteration.\<close>

definition put_draws :: "event list \<Rightarrow> draws list" where
  "put_draws evs = map ev_draws (filter (\<lambda>ev. ev_put ev = Put_done) evs)"

definition back_off :: "pyfloat \<Rightarrow> event \<Rightarrow> pyfloat" where
  "back_off interval ev =
     (if ev_put ev = Put_done then interval else float_mul interval (Fin 2))"

text \<open>The posts generated from a list of draws under consecutive counts from \<open>k\<close> on.\<close>

definition generated_from :: "nat \<Rightarrow> draws list \<Rightarrow> pydict list" where
  "generated_from k ds =
     map (\<lambda>kd. case generate_post (fst kd) (snd kd) of Inr post \<Rightarrow> post | Inl e \<Rightarrow> [])
       (List.enumerate k ds)"

text \<open>A \<open>time.sleep\<close> that raises on \<open>nan\<close>, on a negative and on an infinite duration, and
  returns on every other.\<close>

fun sample_sleep :: "pyfloat \<Rightarrow> pyexn option" where
  "sample_sleep (Fin r) = (if r < 0 then Some ValueError else None)"
| "sample_sleep NaN = Some ValueError"
| "sample_sleep PInf = Some OverflowError"
| "sample_sleep NInf = Some OverflowError"

text \<open>A run whose first \<open>put\<close> finds the queue full and whose second \<open>put\<close> returns.\<close>

definition full_then_done :: "event list" where
  "full_then_done =
     [\<lparr>ev_draws = sample_draws, ev_put = Put_full, ev_stop = False\<rparr>,
      \<lparr>ev_draws = other_draws, ev_put = Put_done, ev_stop = False\<rparr>]"

section \<open>Properties of validation\<close>


lemma run_checks_append:
  "run_checks cs p errs = (errs @ fst (run_checks cs p []), snd (run_checks cs p []))"
proof (induction cs arbitrary: errs)
  case Nil
  then show ?case by simp
next
  case (Cons c cs)
  show ?case
  proof (cases "c p")
    case (Inl e)
    then show ?thesis by simp
  next
    case (Inr ms)
    then show ?thesis using Cons.IH[of "errs @ ms"] Cons.IH[of ms] by simp
  qed
qed

lemma py_strip_Nil_iff: "py_strip s = [] \<longleftrightarrow> (\<forall>c \<in> set s. py_isspace c)"
proof
  assume a: "py_strip s = []"
  then have "dropWhile py_isspace (rev (dropWhile py_isspace s)) = []"
    by (simp add: py_strip_def)
  then have "\<forall>c \<in> set (dropWhile py_isspace s). py_isspace c"
    by (simp add: dropWhile_eq_Nil_conv)
  moreover have "\<forall>c \<in> set (takeWhile py_isspace s). py_isspace c"
    by (auto dest: set_takeWhileD)
  moreover have "set s = set (takeWhile py_isspace s) \<union> set (dropWhile py_isspace s)"
    by (metis set_append takeWhile_dropWhile_id)
  ultimately show "\<forall>c \<in> set s. py_isspace c" by blast
next
  assume "\<forall>c \<in> set s. py_isspace c"
  then show "py_strip s = []" by (auto simp: py_strip_def dest: set_dropWhileD)
qed

lemma validate_post_valid_iff:
  "fst (validate_post fromiso v) \<longleftrightarrow> snd (validate_post fromiso v) = []"
  by (simp add: validate_post_def Let_def)

lemma validate_post_dict:
  "snd (validate_post fromiso (PyDict p)) =
     (case run_checks (checks fromiso) p [] of
        (errs, None) \<Rightarrow> errs | (errs, Some e) \<Rightarrow> errs @ [ValidationError e])"
  by (simp add: validate_post_def validate_body_def Let_def)

text \<open>
  C10. A post without the key \<open>username\<close> is invalid, whatever else it holds:
  \<open>username\<close> is one of the required fields, so the check for missing fields
  reports it, and a reported error makes the post invalid.
\<close>

theorem missing_username_is_invalid:
  assumes "''username'' \<notin> set (map fst p)"
  shows "''username'' \<in> set required_fields \<and>
         \<not> fst (validate_post fromiso (PyDict p)) \<and>
         (\<exists>M. ''username'' \<in> M \<and>
              MissingRequiredFields M \<in> set (snd (validate_post fromiso (PyDict p))))"
proof -
  define M where "M = set required_fields - set (map fst p)"
  have m: "''username'' \<in> M" using assms by (simp add: M_def required_fields_def)
  then have c: "check_required p = Inr [MissingRequiredFields M]"
    by (auto simp: check_required_def Let_def M_def)
  obtain rest where cs: "checks fromiso = check_required # rest" by (simp add: checks_def)
  have "run_checks (checks fromiso) p [] =
          ([MissingRequiredFields M] @ fst (run_checks rest p []), snd (run_checks rest p []))"
    using run_checks_append[of rest p "[MissingRequiredFields M]"] by (simp add: cs c)
  then have "MissingRequiredFields M \<in> set (snd (validate_post fromiso (PyDict p)))"
    by (simp add: validate_post_dict split: option.splits)
  moreover from this have "\<not> fst (validate_post fromiso (PyDict p))"
    by (auto simp: validate_post_valid_iff)
  ultimately show ?thesis using m by (auto simp: required_fields_def)
qed

lemmas sample_defs = sample_post_def sample_engagement_def sample_metadata_def sample_fromiso_def

theorem missing_username_is_invalid_witness:
  "''username'' \<notin> set (map fst sample_without_username) \<and>
   validate_post sample_fromiso (PyDict sample_post) = (True, []) \<and>
   validate_post sample_fromiso (PyDict sample_without_username) =
     (False, [MissingRequiredFields {''username''}]) \<and>
   \<not> fst (validate_post sample_fromiso (PyDict sample_without_username))"
proof -
  have h: "''username'' \<notin> set (map fst sample_without_username)"
    by (simp add: sample_without_username_def sample_defs)
  have "validate_post sample_fromiso (PyDict sample_post) = (True, [])" by code_simp
  moreover have "validate_post sample_fromiso (PyDict sample_without_username) =
     (False, [MissingRequiredFields {''username''}])" by code_simp
  ultimately show ?thesis using h missing_username_is_invalid[OF h, of sample_fromiso] by simp
qed

lemma run_checks_no_raise:
  assumes "\<forall>c \<in> set pre. raises c p = None"
  shows "run_checks (pre @ cs) p errs = run_checks cs p (errs @ concat (map (\<lambda>c. msgs_of c p) pre))"
  using assms
proof (induction pre arbitrary: errs)
  case Nil
  then show ?case by simp
next
  case (Cons c pre)
  then obtain ms where c: "c p = Inr ms" by (cases "c p") (auto simp: raises_def)
  have "run_checks ((c # pre) @ cs) p errs = run_checks (pre @ cs) p (errs @ ms)"
    by (simp add: c)
  also have "\<dots> = run_checks cs p ((errs @ ms) @ concat (map (\<lambda>c. msgs_of c p) pre))"
    using Cons by simp
  finally show ?case by (simp add: msgs_of_def c)
qed

lemma run_checks_raise:
  assumes "\<forall>c' \<in> set pre. raises c' p = None" and "c p = Inl e"
  shows "run_checks (pre @ c # post) p errs =
           (errs @ concat (map (\<lambda>c. msgs_of c p) pre), Some e)"
  using run_checks_no_raise[OF assms(1), of "c # post" errs] assms(2) by simp

lemma run_checks_all:
  assumes "\<forall>c \<in> set cs. raises c p = None"
  shows "run_checks cs p errs = (errs @ concat (map (\<lambda>c. msgs_of c p) cs), None)"
  using run_checks_no_raise[OF assms, of "[]" errs] by simp





















section \<open>Properties of the floating-point arithmetic\<close>

lemma rhe_floor_le: "of_int \<lfloor>x\<rfloor> \<le> (of_int (round_half_even x) :: rat)"
  by (simp add: round_half_even_def Let_def)

lemma rhe_bounds: "\<lfloor>x\<rfloor> \<le> round_half_even x" "round_half_even x \<le> \<lfloor>x\<rfloor> + 1"
  by (simp_all add: round_half_even_def Let_def)

lemma rhe_of_int [simp]: "round_half_even (of_int n) = n"
  by (simp add: round_half_even_def)

lemma rhe_mono: assumes "x \<le> y" shows "round_half_even x \<le> round_half_even y"
proof (cases "\<lfloor>x\<rfloor> = \<lfloor>y\<rfloor>")
  case True
  then show ?thesis using assms by (auto simp: round_half_even_def Let_def)
next
  case False
  then have "\<lfloor>x\<rfloor> < \<lfloor>y\<rfloor>" using assms floor_mono[OF assms] by linarith
  then show ?thesis using rhe_bounds[of x] rhe_bounds[of y] by linarith
qed

lemma bitlen_powi_bounds:
  assumes "0 < a"
  shows "2 powi (bitlen a - 1) \<le> (of_int a :: rat)" "(of_int a :: rat) < 2 powi bitlen a"
proof -
  have b: "1 \<le> bitlen a" using assms by (auto simp: bitlen_alt_def)
  have "(2::int) ^ nat (bitlen a - 1) \<le> a" "a < 2 ^ nat (bitlen a)"
    using bitlen_bounds[OF assms] by auto
  then have "(of_int ((2::int) ^ nat (bitlen a - 1)) :: rat) \<le> of_int a"
     "(of_int a :: rat) < of_int (2 ^ nat (bitlen a))"
    by (simp_all only: of_int_le_iff of_int_less_iff)
  then show "2 powi (bitlen a - 1) \<le> (of_int a :: rat)" "(of_int a :: rat) < 2 powi bitlen a"
    using b by (simp_all add: power_int_def)
qed

lemma ilog2_bounds:
  assumes "0 < q"
  shows "2 powi ilog2 q \<le> q" "q < 2 powi (ilog2 q + 1)"
proof -
  obtain a b where ab: "quotient_of q = (a, b)" by (cases "quotient_of q")
  have bpos: "0 < b" using quotient_of_denom_pos[OF ab] .
  have q: "q = of_int a / of_int b" using quotient_of_div[OF ab] .
  have apos: "0 < a" using assms bpos q by (simp add: zero_less_divide_iff)
  define k where "k = bitlen a - bitlen b"
  have B: "0 < (of_int b :: rat)" using bpos by simp
  have lo: "2 powi (k - 1) < q"
  proof -
    have "2 powi (k - 1) * (of_int b :: rat) < 2 powi (k - 1) * 2 powi bitlen b"
      using bitlen_powi_bounds(2)[OF bpos] by simp
    also have "\<dots> = 2 powi (bitlen a - 1)"
      by (simp add: k_def power_int_add[symmetric])
    also have "\<dots> \<le> of_int a" using bitlen_powi_bounds(1)[OF apos] .
    finally show ?thesis using B by (simp add: q pos_less_divide_eq)
  qed
  have hi: "q < 2 powi (k + 1)"
  proof -
    have "(of_int a :: rat) < 2 powi bitlen a" using bitlen_powi_bounds(2)[OF apos] .
    also have "\<dots> = 2 powi (k + 1) * 2 powi (bitlen b - 1)"
      by (simp add: k_def power_int_add[symmetric])
    also have "\<dots> \<le> 2 powi (k + 1) * of_int b"
      using bitlen_powi_bounds(1)[OF bpos] by simp
    finally show ?thesis using B by (simp add: q pos_divide_less_eq)
  qed
  have il: "ilog2 q = (if 2 powi k \<le> q then k else k - 1)"
    by (simp add: ilog2_def ab k_def Let_def)
  show "2 powi ilog2 q \<le> q" using lo by (simp add: il less_imp_le)
  show "q < 2 powi (ilog2 q + 1)" using hi by (simp add: il not_le)
qed

lemma powi2_less_iff: "(2::rat) powi a < 2 powi b \<longleftrightarrow> a < b"
proof
  assume l: "(2::rat) powi a < 2 powi b"
  show "a < b"
  proof (rule ccontr)
    assume "\<not> a < b"
    then have "(2::rat) powi b \<le> 2 powi a" by (intro power_int_increasing) auto
    with l show False by simp
  qed
next
  assume "a < b"
  then show "(2::rat) powi a < 2 powi b" by (intro power_int_strict_increasing) auto
qed

lemma powi2_le_iff: "(2::rat) powi a \<le> 2 powi b \<longleftrightarrow> a \<le> b"
  using powi2_less_iff[of b a] by (auto simp: not_less[symmetric])

lemma ilog2_unique:
  assumes "2 powi k \<le> q" "q < 2 powi (k + 1)"
  shows "ilog2 q = k"
proof -
  have qpos: "0 < q" using assms(1) by (rule less_le_trans[rotated]) simp
  have "(2::rat) powi k < 2 powi (ilog2 q + 1)"
    using assms(1) ilog2_bounds(2)[OF qpos] by simp
  then have a: "k < ilog2 q + 1" by (simp only: powi2_less_iff)
  have "(2::rat) powi ilog2 q < 2 powi (k + 1)"
    using assms(2) ilog2_bounds(1)[OF qpos] by simp
  then have "ilog2 q < k + 1" by (simp only: powi2_less_iff)
  with a show ?thesis by simp
qed

lemma ilog2_mono:
  assumes "0 < x" "x \<le> y"
  shows "ilog2 x \<le> ilog2 y"
proof -
  have "(2::rat) powi ilog2 x < 2 powi (ilog2 y + 1)"
    using ilog2_bounds(1)[OF assms(1)] ilog2_bounds(2)[of y] assms by simp
  then have "ilog2 x < ilog2 y + 1" by (simp only: powi2_less_iff)
  then show ?thesis by simp
qed

lemma binade_exp_mono:
  assumes "0 < x" "x \<le> y"
  shows "binade_exp x \<le> binade_exp y"
  using ilog2_mono[OF assms] assms by (simp add: binade_exp_def)

lemma round_binary64_grid:
  assumes "q \<noteq> 0" and "b = of_int n * 2 powi binade_exp q"
  shows "q \<le> b \<Longrightarrow> round_binary64 q \<le> b" "b \<le> q \<Longrightarrow> b \<le> round_binary64 q"
proof -
  define e where "e = binade_exp q"
  have P: "0 < (2::rat) powi e" by simp
  have r: "round_binary64 q = of_int (round_half_even (q / 2 powi e)) * 2 powi e"
    using assms(1) by (simp add: round_binary64_def e_def)
  have bn: "b / 2 powi e = of_int n" using assms(2) by (simp add: e_def)
  { assume "q \<le> b"
    then have "q / 2 powi e \<le> of_int n" using P by (simp add: divide_right_mono flip: bn)
    then have "round_half_even (q / 2 powi e) \<le> n" using rhe_mono rhe_of_int by metis
    then have "(of_int (round_half_even (q / 2 powi e)) :: rat) \<le> of_int n" by simp
    then have "(of_int (round_half_even (q / 2 powi e)) :: rat) * 2 powi e \<le> of_int n * 2 powi e"
      using P by (simp only: mult_le_cancel_right_pos)
    then show "round_binary64 q \<le> b" by (simp add: r assms(2) e_def) }
  { assume "b \<le> q"
    then have "of_int n \<le> q / 2 powi e" using P by (simp add: divide_right_mono flip: bn)
    then have "n \<le> round_half_even (q / 2 powi e)" using rhe_mono rhe_of_int by metis
    then have "(of_int n :: rat) \<le> of_int (round_half_even (q / 2 powi e))" by simp
    then have "(of_int n :: rat) * 2 powi e \<le> of_int (round_half_even (q / 2 powi e)) * 2 powi e"
      using P by (simp only: mult_le_cancel_right_pos)
    then show "b \<le> round_binary64 q" by (simp add: r assms(2) e_def) }
qed

lemma round_binary64_nonneg: "0 \<le> q \<Longrightarrow> 0 \<le> round_binary64 q"
  using round_binary64_grid(2)[of q 0 0] by (cases "q = 0") (simp_all add: round_binary64_def)

lemma powi2_grid:
  assumes "j \<le> k"
  shows "\<exists>n. (2::rat) powi k = of_int n * 2 powi j"
proof -
  have "(2::rat) powi k = 2 powi (k - j) * 2 powi j" by (simp add: power_int_add[symmetric])
  also have "(2::rat) powi (k - j) = of_int (2 ^ nat (k - j))"
    using assms by (simp add: power_int_def)
  finally show ?thesis by blast
qed

lemma round_binary64_mono:
  assumes "0 \<le> x" "x \<le> y"
  shows "round_binary64 x \<le> round_binary64 y"
proof (cases "x = 0")
  case True
  then show ?thesis using round_binary64_nonneg[of y] assms by (simp add: round_binary64_def)
next
  case False
  then have xpos: "0 < x" and ypos: "0 < y" using assms by auto
  have le: "binade_exp x \<le> binade_exp y" using binade_exp_mono[OF xpos assms(2)] .
  show ?thesis
  proof (cases "binade_exp x = binade_exp y")
    case True
    have "x / 2 powi binade_exp y \<le> y / 2 powi binade_exp y"
      using assms(2) by (simp add: divide_right_mono)
    then have "(of_int (round_half_even (x / 2 powi binade_exp y)) :: rat)
        \<le> of_int (round_half_even (y / 2 powi binade_exp y))"
      using rhe_mono by simp
    then show ?thesis using xpos ypos True
      by (simp add: round_binary64_def mult_le_cancel_right_pos)
  next
    case False
    with le have lt: "binade_exp x < binade_exp y" by simp
    then have ey: "binade_exp y = ilog2 y - 52" and il: "ilog2 x < ilog2 y"
      using xpos ypos by (auto simp: binade_exp_def max_def split: if_splits)
    define B :: rat where "B = 2 powi ilog2 y"
    have "x < 2 powi (ilog2 x + 1)" using ilog2_bounds(2)[OF xpos] .
    also have "\<dots> \<le> B" unfolding B_def using il by (simp only: powi2_le_iff)
    finally have xB: "x \<le> B" by simp
    have By: "B \<le> y" unfolding B_def using ilog2_bounds(1)[OF ypos] .
    obtain n where n: "B = of_int n * 2 powi binade_exp y"
      unfolding B_def using powi2_grid[of "binade_exp y" "ilog2 y"] ey by auto
    obtain m where m: "B = of_int m * 2 powi binade_exp x"
      unfolding B_def using powi2_grid[of "binade_exp x" "ilog2 y"] ey lt by auto
    have "round_binary64 x \<le> B" using round_binary64_grid(1)[OF _ m xB] xpos by simp
    also have "B \<le> round_binary64 y" using round_binary64_grid(2)[OF _ n By] ypos by simp
    finally show ?thesis .
  qed
qed

lemma round_binary64_on_grid:
  assumes "q = of_int m * 2 powi binade_exp q"
  shows "round_binary64 q = q"
proof (cases "q = 0")
  case True then show ?thesis by (simp add: round_binary64_def)
next
  case False
  have "q / 2 powi binade_exp q = of_int m * 2 powi binade_exp q / 2 powi binade_exp q"
    using assms by simp
  then have "q / 2 powi binade_exp q = of_int m" by simp
  then show ?thesis using False assms by (simp add: round_binary64_def)
qed

lemma ilog2_less:
  assumes "0 < q" "q < 2 powi k"
  shows "ilog2 q < k"
proof -
  have "(2::rat) powi ilog2 q < 2 powi k" using ilog2_bounds(1)[OF assms(1)] assms(2) by simp
  then show ?thesis by (simp only: powi2_less_iff)
qed

lemma int_on_grid:
  assumes "q \<noteq> 0" "\<bar>q\<bar> < 2 powi 53"
  shows "\<exists>m. (of_int n :: rat) = of_int m * 2 powi binade_exp q"
proof -
  have "ilog2 \<bar>q\<bar> < 53" using ilog2_less[of "\<bar>q\<bar>" 53] assms by simp
  then have e: "binade_exp q \<le> 0" by (simp add: binade_exp_def)
  have "(of_int n :: rat) = of_int n * 2 powi (- binade_exp q) * 2 powi binade_exp q"
    by (simp add: power_int_minus)
  also have "(2::rat) powi (- binade_exp q) = of_int (2 ^ nat (- binade_exp q))"
    using e by (simp add: power_int_def)
  finally have "(of_int n :: rat) = of_int (n * 2 ^ nat (- binade_exp q)) * 2 powi binade_exp q"
    by (simp only: of_int_mult)
  then show ?thesis by blast
qed

lemma round_binary64_int:
  assumes "\<bar>n\<bar> < 2 ^ 53"
  shows "round_binary64 (of_int n) = of_int n"
proof (cases "n = 0")
  case True then show ?thesis by (simp add: round_binary64_def)
next
  case False
  have "(of_int \<bar>n\<bar> :: rat) < of_int (2 ^ 53)" using assms by (simp only: of_int_less_iff)
  then have "\<bar>of_int n :: rat\<bar> < 2 powi 53" by simp
  then obtain m where "(of_int n :: rat) = of_int m * 2 powi binade_exp (of_int n)"
    using int_on_grid[of "of_int n" n] False by auto
  then show ?thesis by (rule round_binary64_on_grid)
qed

lemma round_binary64_le_pow2:
  assumes "q \<le> 2 powi k" "- 1074 \<le> k"
  shows "round_binary64 q \<le> 2 powi k"
proof (cases "0 < q")
  case True
  have "ilog2 q \<le> k"
  proof -
    have "(2::rat) powi ilog2 q \<le> 2 powi k" using ilog2_bounds(1)[OF True] assms(1) by simp
    then show ?thesis by (simp only: powi2_le_iff)
  qed
  then have "binade_exp q \<le> k" using True assms(2) by (simp add: binade_exp_def)
  then obtain n where "(2::rat) powi k = of_int n * 2 powi binade_exp q"
    using powi2_grid by blast
  then show ?thesis using round_binary64_grid(1)[of q "2 powi k" n] True assms(1) by simp
next
  case False
  then have "q \<le> 0" by simp
  then have "round_binary64 q \<le> 0"
    using round_binary64_grid(1)[of q 0 0] by (cases "q = 0") (simp_all add: round_binary64_def)
  also have "(0::rat) \<le> 2 powi k" by simp
  finally show ?thesis .
qed

lemma rhe_nonneg: "0 \<le> x \<Longrightarrow> 0 \<le> round_half_even x"
  using rhe_mono[of "of_int 0" x] rhe_of_int[of 0] by simp

lemma rhe_le_add_one: "of_int (round_half_even x) \<le> x + 1"
proof -
  have "of_int (round_half_even x) \<le> (of_int (\<lfloor>x\<rfloor> + 1) :: rat)"
    using rhe_bounds(2)[of x] by (simp only: of_int_le_iff)
  also have "\<dots> \<le> x + 1" by simp
  finally show ?thesis .
qed

lemma to_float_cases:
  assumes "0 \<le> q"
  shows "to_float q = PInf \<or> (\<exists>r. to_float q = Fin r \<and> 0 \<le> r \<and> r = round_binary64 q)"
  using round_binary64_nonneg[OF assms] by (auto simp: to_float_def Let_def)

lemma to_float_finite:
  assumes "0 \<le> q" "q \<le> 2 powi k" "- 1074 \<le> k" "k < 1024"
  shows "to_float q = Fin (round_binary64 q)" "0 \<le> round_binary64 q" "round_binary64 q \<le> 2 powi k"
proof -
  show b: "round_binary64 q \<le> 2 powi k" using round_binary64_le_pow2[OF assms(2,3)] .
  show n: "0 \<le> round_binary64 q" using round_binary64_nonneg[OF assms(1)] .
  have "(2::rat) powi k < 2 powi 1024" using assms(4) by (simp only: powi2_less_iff)
  with b have "round_binary64 q < 2 powi 1024" by simp
  then show "to_float q = Fin (round_binary64 q)" using n by (simp add: to_float_def Let_def)
qed

lemma to_float_int:
  assumes "\<bar>n\<bar> < 2 ^ 53"
  shows "to_float (of_int n) = Fin (of_int n)"
proof -
  have "(of_int \<bar>n\<bar> :: rat) < of_int (2 ^ 53)" using assms by (simp only: of_int_less_iff)
  then have "\<bar>of_int n :: rat\<bar> < 2 ^ 53" by simp
  also have "(2::rat) ^ 53 < 2 ^ 1024" by simp
  finally have "\<bar>of_int n :: rat\<bar> < 2 ^ 1024" .
  then have "(of_int n :: rat) < 2 powi 1024" "- (2 powi 1024) < (of_int n :: rat)" by auto
  then show ?thesis using round_binary64_int[OF assms] by (simp add: to_float_def Let_def)
qed

text \<open>An equation for evaluating \<open>to_float\<close>: the overflow test on the exponent.\<close>

lemma ilog2_ge:
  assumes "0 < q"
  shows "k \<le> ilog2 q \<longleftrightarrow> 2 powi k \<le> q"
proof
  assume "k \<le> ilog2 q"
  then have "(2::rat) powi k \<le> 2 powi ilog2 q" by (simp only: powi2_le_iff)
  then show "2 powi k \<le> q" using ilog2_bounds(1)[OF assms] by simp
next
  assume a: "2 powi k \<le> q"
  have "q < 2 powi (ilog2 q + 1)" using ilog2_bounds(2)[OF assms] .
  with a have "(2::rat) powi k < 2 powi (ilog2 q + 1)" by simp
  then have "k < ilog2 q + 1" by (simp only: powi2_less_iff)
  then show "k \<le> ilog2 q" by simp
qed

lemma to_float_code [code]:
  "to_float q =
     (let r = round_binary64 q
      in if 0 < r then (if 1024 \<le> ilog2 r then PInf else Fin r)
         else if r < 0 then (if 1024 \<le> ilog2 (- r) then NInf else Fin r)
         else Fin r)"
proof -
  define r where "r = round_binary64 q"
  consider "0 < r" | "r < 0" | "r = 0" by linarith
  then show ?thesis
  proof cases
    case 1
    then show ?thesis using ilog2_ge[OF 1, of 1024]
      by (simp add: to_float_def Let_def flip: r_def)
  next
    case 2
    then have p: "0 < - r" by simp
    have "r \<le> - (2 powi 1024) \<longleftrightarrow> 2 powi 1024 \<le> - r" by linarith
    then show ?thesis using ilog2_ge[OF p, of 1024] 2
      by (simp add: to_float_def Let_def flip: r_def)
  next
    case 3
    then show ?thesis by (simp add: to_float_def Let_def flip: r_def)
  qed
qed

section \<open>Properties of transformation\<close>

lemma run_checks_valid:
  assumes "run_checks cs p errs = ([], None)"
  shows "errs = [] \<and> (\<forall>c \<in> set cs. c p = Inr [])"
  using assms
proof (induction cs arbitrary: errs)
  case Nil
  then show ?case by simp
next
  case (Cons c cs)
  show ?case
  proof (cases "c p")
    case (Inl e)
    then show ?thesis using Cons.prems by simp
  next
    case (Inr ms)
    then have "run_checks cs p (errs @ ms) = ([], None)" using Cons.prems by simp
    from Cons.IH[OF this] show ?thesis using Inr by simp
  qed
qed

lemma valid_checks:
  assumes "fst (validate_post fromiso (PyDict p))"
  shows "\<forall>c \<in> set (checks fromiso). c p = Inr []"
proof -
  obtain errs ex where r: "run_checks (checks fromiso) p [] = (errs, ex)"
    by (cases "run_checks (checks fromiso) p []")
  have "snd (validate_post fromiso (PyDict p)) = []"
    using assms by (simp add: validate_post_valid_iff)
  then have "errs = [] \<and> ex = None"
    using r by (cases ex) (simp_all add: validate_post_dict)
  then show ?thesis using run_checks_valid[of "checks fromiso" p "[]"] r by simp
qed

lemma map_of_present: "k \<in> set (map fst p) \<Longrightarrow> \<exists>v. map_of p k = Some v"
  by (cases "map_of p k") (auto simp: map_of_eq_None_iff)

lemma valid_required:
  assumes "fst (validate_post fromiso (PyDict p))" and "k \<in> set required_fields"
  shows "\<exists>v. map_of p k = Some v"
proof -
  have "check_required p = Inr []" using valid_checks[OF assms(1)] by (simp add: checks_def)
  then have "set required_fields - set (map fst p) = {}"
    by (simp add: check_required_def Let_def split: if_splits)
  then have "k \<in> set (map fst p)" using assms(2) by blast
  then show ?thesis by (rule map_of_present)
qed

lemma engagement_field_ok:
  assumes "check_engagement_field e f = []" and "f \<in> set (map fst e)"
  shows "\<exists>i. int_item e f = Inr i \<and> 0 \<le> i"
proof -
  obtain v where v: "map_of e f = Some v" using map_of_present[OF assms(2)] by blast
  then show ?thesis using assms(1)
    by (cases "as_int v")
       (auto simp: check_engagement_field_def int_item_def getitem_def bind_exn_def
             split: if_splits)
qed

lemma valid_engagement:
  assumes "fst (validate_post fromiso (PyDict p))"
  shows "\<exists>e l s c v. map_of p ''engagement'' = Some (PyDict e) \<and>
           int_item e ''likes'' = Inr l \<and> int_item e ''shares'' = Inr s \<and>
           int_item e ''comments'' = Inr c \<and> int_item e ''views'' = Inr v \<and>
           0 \<le> l \<and> 0 \<le> s \<and> 0 \<le> c \<and> 0 \<le> v"
proof -
  obtain ev where ev: "map_of p ''engagement'' = Some ev"
    using valid_required[OF assms, of "''engagement''"] by (auto simp: required_fields_def)
  have ce: "check_engagement p = Inr []" using valid_checks[OF assms] by (simp add: checks_def)
  then obtain e where e: "ev = PyDict e" using ev by (cases ev) (simp_all add: check_engagement_def)
  have m: "set required_engagement_fields - set (map fst e) = {}"
    and f: "\<forall>k \<in> set required_engagement_fields. check_engagement_field e k = []"
    using ce ev e by (auto simp: check_engagement_def Let_def split: if_splits)
  have "\<forall>k \<in> set required_engagement_fields. \<exists>i. int_item e k = Inr i \<and> 0 \<le> i"
    using m f engagement_field_ok[of e] by blast
  then show ?thesis using ev e by (simp add: required_engagement_fields_def) blast
qed

lemma bind_exn_Inr_iff: "bind_exn m f = Inr y \<longleftrightarrow> (\<exists>x. m = Inr x \<and> f x = Inr y)"
  by (cases m) (simp_all add: bind_exn_def)

lemma bind_exn_Inr [simp]: "bind_exn (Inr x) f = f x"
  by (simp add: bind_exn_def)

lemma bind_exn_Inl [simp]: "bind_exn (Inl e) f = Inl e"
  by (simp add: bind_exn_def)

lemma transform_post_Inr:
  assumes "transform_post fromiso now p = Inr pp"
  obtains e l s c v rate content metadata hashtags score ts t where
    "map_of p ''engagement'' = Some (PyDict e)"
    "int_item e ''likes'' = Inr l" "int_item e ''shares'' = Inr s"
    "int_item e ''comments'' = Inr c" "int_item e ''views'' = Inr v"
    "engagement_rate l s c v = Inr rate"
    "map_of p ''content'' = Some (PyStr content)"
    "map_of p ''metadata'' = Some (PyDict metadata)"
    "hashtag_count metadata = Inr hashtags"
    "popularity_score e = Inr score"
    "map_of metadata ''timestamp'' = Some (PyStr ts)" "fromiso ts = Some t"
    "pp = add_derived p (isoformat now) rate (content_metrics content hashtags metadata)
            score (post_size (length content)) (hour t)"
proof -
  from assms obtain ev e l s c v rate cv content mv metadata hashtags score tv ts t where
    "getitem p ''engagement'' = Inr ev"
    "(case ev of PyDict d \<Rightarrow> Inr d | _ \<Rightarrow> Inl TypeError) = Inr e"
    "int_item e ''likes'' = Inr l" "int_item e ''shares'' = Inr s"
    "int_item e ''comments'' = Inr c" "int_item e ''views'' = Inr v"
    "engagement_rate l s c v = Inr rate"
    "getitem p ''content'' = Inr cv"
    "(case cv of PyStr c \<Rightarrow> Inr c | _ \<Rightarrow> Inl TypeError) = Inr content"
    "getitem p ''metadata'' = Inr mv"
    "(case mv of PyDict d \<Rightarrow> Inr d | _ \<Rightarrow> Inl AttributeError) = Inr metadata"
    "hashtag_count metadata = Inr hashtags"
    "popularity_score e = Inr score"
    "getitem metadata ''timestamp'' = Inr tv"
    "(case tv of PyStr t \<Rightarrow> Inr t | _ \<Rightarrow> Inl TypeError) = Inr ts"
    "(case fromiso ts of None \<Rightarrow> Inl ValueError | Some t \<Rightarrow> Inr t) = Inr t"
    "pp = add_derived p (isoformat now) rate (content_metrics content hashtags metadata)
            score (post_size (length content)) (hour t)"
    unfolding transform_post_def bind_exn_Inr_iff by auto
  then show thesis
    using that[of e l s c v rate content metadata hashtags score ts t]
    by (auto simp: getitem_def split: option.splits pyval.splits)
qed

lemma map_of_add_derived:
  "map_of (add_derived p stamp rate metrics score sz h) =
     (map_of p)(''processed_at'' \<mapsto> PyStr stamp, ''engagement_rate'' \<mapsto> rate,
        ''content_metrics'' \<mapsto> metrics, ''popularity_score'' \<mapsto> PyFloat score,
        ''post_size'' \<mapsto> PyStr sz, ''post_hour'' \<mapsto> PyInt (int h))"
  by (simp add: add_derived_def update_conv')

lemma finite_or_overflow_Inr: "finite_or_overflow x = Inr y \<longleftrightarrow> (\<exists>r. x = Fin r \<and> y = Fin r)"
  by (cases x) (auto simp: finite_or_overflow_def)

lemma int_truediv_nonneg:
  assumes "0 \<le> a" "0 < b" "int_truediv a b = Inr q"
  shows "\<exists>r. q = Fin r \<and> 0 \<le> r \<and> r = round_binary64 (of_int a / of_int b)"
proof -
  have "0 \<le> (of_int a / of_int b :: rat)" using assms(1,2) by simp
  from to_float_cases[OF this] show ?thesis
    using assms by (auto simp: int_truediv_def finite_or_overflow_Inr)
qed

lemma py_round2_nonneg:
  assumes "0 \<le> r" "py_round2 (Fin r) = Inr y"
  shows "\<exists>r'. y = Fin r' \<and> 0 \<le> r'"
proof -
  have "0 \<le> (of_int (round_half_even (r * 100)) / 100 :: rat)"
    using rhe_nonneg[of "r * 100"] assms(1) by simp
  from to_float_cases[OF this] show ?thesis
    using assms(2) by (auto simp: py_round2_def finite_or_overflow_Inr)
qed

lemma engagement_rate_zero_views: "engagement_rate l s c 0 = Inr (PyInt 0)"
  by (simp add: engagement_rate_def)

lemma engagement_rate_pos_views:
  assumes "0 < v"
  shows "engagement_rate l s c v = Inr rate \<longleftrightarrow>
           (\<exists>q r. int_truediv (l + s + c) v = Inr q \<and>
                  py_round2 (float_mul q (Fin 100)) = Inr r \<and> rate = PyFloat r)"
  using assms by (auto simp: engagement_rate_def Let_def bind_exn_Inr_iff)

lemma engagement_rate_nonneg:
  assumes "0 \<le> l" "0 \<le> s" "0 \<le> c" "0 \<le> v" "engagement_rate l s c v = Inr rate"
  shows "nonneg_number rate"
proof (cases "v = 0")
  case True
  then show ?thesis using assms(5) by (auto simp: engagement_rate_zero_views)
next
  case False
  then have vpos: "0 < v" using assms(4) by simp
  then obtain q r where q: "int_truediv (l + s + c) v = Inr q"
    and r: "py_round2 (float_mul q (Fin 100)) = Inr r" and rate: "rate = PyFloat r"
    using assms(5) by (auto simp: engagement_rate_pos_views)
  obtain x where x: "q = Fin x" "0 \<le> x"
    using int_truediv_nonneg[OF _ vpos q] assms(1-3) by auto
  have "0 \<le> x * 100" using x(2) by simp
  from to_float_cases[OF this] show ?thesis
  proof
    assume "to_float (x * 100) = PInf"
    then show ?thesis using r rate x by (simp add: py_round2_def)
  next
    assume "\<exists>y. to_float (x * 100) = Fin y \<and> 0 \<le> y \<and> y = round_binary64 (x * 100)"
    then obtain y where y: "to_float (x * 100) = Fin y" "0 \<le> y" by blast
    then obtain z where "r = Fin z" "0 \<le> z" using py_round2_nonneg[of y r] r x by auto
    then show ?thesis using rate by simp
  qed
qed

lemma powi2_times_128: "(2::rat) powi k * 128 = 2 powi (k + 7)"
  by (simp add: power_int_add)

lemma engagement_rate_finite:
  assumes "0 \<le> l" "0 \<le> s" "0 \<le> c" "0 < v" "l + s + c \<le> 2 ^ 1000 * v"
  shows "\<exists>r. engagement_rate l s c v = Inr (PyFloat (Fin r)) \<and> 0 \<le> r"
proof -
  define x :: rat where "x = of_int (l + s + c) / of_int v"
  have x0: "0 \<le> x" using assms(1-4) by (simp add: x_def)
  have "(of_int (l + s + c) :: rat) \<le> of_int (2 ^ 1000 * v)"
    using assms(5) by (simp only: of_int_le_iff)
  then have "x \<le> 2 ^ 1000" using assms(4) by (simp add: x_def pos_divide_le_eq)
  then have x1: "x \<le> 2 powi 1000" by simp
  define q where "q = round_binary64 x"
  have q: "to_float x = Fin q" "0 \<le> q" "q \<le> 2 powi 1000"
    unfolding q_def using to_float_finite[OF x0 x1] by simp_all
  have td: "int_truediv (l + s + c) v = Inr (Fin q)"
    using assms(4) q(1) by (simp add: int_truediv_def x_def finite_or_overflow_def)
  have y0: "0 \<le> q * 100" using q(2) by simp
  have "q * 100 \<le> 2 powi 1000 * 128" using q(2,3) by (intro mult_mono) simp_all
  then have y1: "q * 100 \<le> 2 powi 1007" by (simp only: powi2_times_128) simp
  define y where "y = round_binary64 (q * 100)"
  have y: "to_float (q * 100) = Fin y" "0 \<le> y" "y \<le> 2 powi 1007"
    unfolding y_def using to_float_finite[OF y0 y1] by simp_all
  define z :: rat where "z = of_int (round_half_even (y * 100)) / 100"
  have z0: "0 \<le> z" using rhe_nonneg[of "y * 100"] y(2) by (simp add: z_def)
  have "z \<le> (y * 100 + 1) / 100" unfolding z_def
    using rhe_le_add_one[of "y * 100"] by (simp add: divide_right_mono)
  also have "\<dots> \<le> y + 1" by simp
  also have "\<dots> \<le> 2 powi 1007 + 2 powi 1007"
    using y(3) by (intro add_mono) (simp_all add: one_le_power_int)
  also have "\<dots> = 2 powi 1008" by simp
  finally have z1: "z \<le> 2 powi 1008" .
  have zf: "to_float z = Fin (round_binary64 z)" "0 \<le> round_binary64 z"
    using to_float_finite[OF z0 z1] by simp_all
  have "py_round2 (float_mul (Fin q) (Fin 100)) = Inr (Fin (round_binary64 z))"
    using y(1) zf(1) by (simp add: py_round2_def z_def finite_or_overflow_def)
  then have "engagement_rate l s c v = Inr (PyFloat (Fin (round_binary64 z)))"
    using assms(4) td by (simp add: engagement_rate_def Let_def)
  then show ?thesis using zf(2) by blast
qed

text \<open>
  C2, as amended. For a valid post that \<open>transform_post\<close> transforms, with engagement
  counts \<open>l\<close>, \<open>s\<close>, \<open>c\<close>, \<open>v\<close> (likes, shares, comments, views; non-negative integers):
  the engagement rate is never negative; it is the integer 0 when \<open>v = 0\<close>; when
  \<open>v > 0\<close> it is \<open>round((l + s + c) / v * 100, 2)\<close> in float arithmetic, which is finite
  as long as \<open>l + s + c \<le> 2^1000 * v\<close>. (It is also 0 for positive views, for example
  when there is no engagement at all.)
\<close>

theorem transform_engagement_rate:
  assumes "fst (validate_post fromiso (PyDict p))"
    and "transform_post fromiso now p = Inr pp"
  shows "\<exists>e l s c v rate.
           map_of p ''engagement'' = Some (PyDict e) \<and>
           int_item e ''likes'' = Inr l \<and> int_item e ''shares'' = Inr s \<and>
           int_item e ''comments'' = Inr c \<and> int_item e ''views'' = Inr v \<and>
           0 \<le> l \<and> 0 \<le> s \<and> 0 \<le> c \<and> 0 \<le> v \<and>
           map_of pp ''engagement_rate'' = Some rate \<and>
           nonneg_number rate \<and>
           (v = 0 \<longrightarrow> rate = PyInt 0) \<and>
           (0 < v \<longrightarrow>
              (\<exists>q r. int_truediv (l + s + c) v = Inr q \<and>
                     py_round2 (float_mul q (Fin 100)) = Inr r \<and> rate = PyFloat r)) \<and>
           (0 < v \<and> l + s + c \<le> 2 ^ 1000 * v \<longrightarrow> (\<exists>r. rate = PyFloat (Fin r)))"
proof -
  obtain e l s c v where e: "map_of p ''engagement'' = Some (PyDict e)"
    and i: "int_item e ''likes'' = Inr l" "int_item e ''shares'' = Inr s"
           "int_item e ''comments'' = Inr c" "int_item e ''views'' = Inr v"
    and n: "0 \<le> l" "0 \<le> s" "0 \<le> c" "0 \<le> v"
    using valid_engagement[OF assms(1)] by blast
  from assms(2) obtain rate where rate: "engagement_rate l s c v = Inr rate"
    and pp: "map_of pp ''engagement_rate'' = Some rate"
    by (rule transform_post_Inr) (use e i in \<open>auto simp: map_of_add_derived\<close>)
  have 1: "nonneg_number rate" using engagement_rate_nonneg[OF n rate] .
  have 2: "v = 0 \<longrightarrow> rate = PyInt 0" using rate by (auto simp: engagement_rate_zero_views)
  have 3: "0 < v \<longrightarrow>
              (\<exists>q r. int_truediv (l + s + c) v = Inr q \<and>
                     py_round2 (float_mul q (Fin 100)) = Inr r \<and> rate = PyFloat r)"
    using rate by (auto simp: engagement_rate_pos_views)
  have 4: "0 < v \<and> l + s + c \<le> 2 ^ 1000 * v \<longrightarrow> (\<exists>r. rate = PyFloat (Fin r))"
    using engagement_rate_finite[OF n(1-3), of v] rate by auto
  show ?thesis using e i n pp 1 2 3 4 by blast
qed

lemma isoformat_sample_now: "isoformat sample_now = ''2024-05-17T10:00:05.250000''"
  by (simp add: isoformat_def sample_now_def pad_nat_def show_nat.simps digit_char_def)

lemma engagement_rate_sample:
  "engagement_rate 120 8 15 4000 =
     Inr (PyFloat (Fin (8038925334856335 / 2251799813685248)))"
  by code_simp

lemma engagement_rate_no_engagement: "engagement_rate 0 0 0 10 = Inr (PyFloat (Fin 0))"
  by code_simp

lemma popularity_score_sample:
  "popularity_score [(''likes'', PyInt 120), (''shares'', PyInt 8), (''comments'', PyInt 15),
                     (''views'', PyInt 4000)] = Inr (Fin 574)"
  by code_simp

lemma popularity_score_no_engagement:
  "popularity_score [(''likes'', PyInt 0), (''shares'', PyInt 0), (''comments'', PyInt 0),
                     (''views'', PyInt 10)] = Inr (Fin 1)"
  by code_simp

lemma word_count_sample:
  "length (py_split ''Tutorial: How to master data science in 5 simple steps'') = 10"
  by code_simp

lemmas transform_eval =
  transform_post_def getitem_def int_item_def hashtag_count_def content_metrics_def
  post_size_def sample_metrics_def isoformat_sample_now word_count_sample

lemma transform_sample_post:
  "transform_post sample_fromiso sample_now sample_post = Inr sample_processed"
  by (simp add: transform_eval sample_defs sample_processed_def engagement_rate_sample
        popularity_score_sample)

lemma transform_zero_engagement_post:
  "transform_post sample_fromiso sample_now zero_engagement_post = Inr zero_engagement_processed"
  by (simp add: transform_eval sample_defs zero_engagement_post_def
        zero_engagement_processed_def engagement_rate_no_engagement
        popularity_score_no_engagement)

lemma valid_sample_post: "fst (validate_post sample_fromiso (PyDict sample_post))"
  by code_simp

lemma valid_zero_engagement_post:
  "fst (validate_post sample_fromiso (PyDict zero_engagement_post))"
  by code_simp

text \<open>C2 as stated fails: a post with 10 views and no likes, shares or comments has the
  engagement rate \<open>0.0\<close>.\<close>

theorem engagement_rate_counterexample:
  "fst (validate_post sample_fromiso (PyDict zero_engagement_post)) \<and>
   map_of zero_engagement_post ''engagement'' =
     Some (PyDict [(''likes'', PyInt 0), (''shares'', PyInt 0), (''comments'', PyInt 0),
                   (''views'', PyInt 10)]) \<and>
   transform_post sample_fromiso sample_now zero_engagement_post =
     Inr zero_engagement_processed \<and>
   map_of zero_engagement_processed ''engagement_rate'' = Some (PyFloat (Fin 0)) \<and>
   engagement_rate 0 0 0 10 = Inr (PyFloat (Fin 0))"
proof -
  have "map_of zero_engagement_post ''engagement'' =
     Some (PyDict [(''likes'', PyInt 0), (''shares'', PyInt 0), (''comments'', PyInt 0),
                   (''views'', PyInt 10)])"
    by (simp add: zero_engagement_post_def update_conv')
  moreover have "map_of zero_engagement_processed ''engagement_rate'' = Some (PyFloat (Fin 0))"
    by (simp add: zero_engagement_processed_def map_of_add_derived)
  ultimately show ?thesis
    using valid_zero_engagement_post transform_zero_engagement_post
      engagement_rate_no_engagement by simp
qed

theorem transform_engagement_rate_witness:
  "fst (validate_post sample_fromiso (PyDict sample_post)) \<and>
   transform_post sample_fromiso sample_now sample_post = Inr sample_processed \<and>
   map_of sample_processed ''engagement_rate'' =
     Some (PyFloat (Fin (8038925334856335 / 2251799813685248))) \<and>
   (\<exists>rate. map_of sample_processed ''engagement_rate'' = Some rate \<and> nonneg_number rate)"
proof -
  have "\<exists>rate. map_of sample_processed ''engagement_rate'' = Some rate \<and> nonneg_number rate"
    using transform_engagement_rate[OF valid_sample_post transform_sample_post] by blast
  moreover have "map_of sample_processed ''engagement_rate'' =
     Some (PyFloat (Fin (8038925334856335 / 2251799813685248)))"
    by (simp add: sample_processed_def map_of_add_derived)
  ultimately show ?thesis using valid_sample_post transform_sample_post by blast
qed

section \<open>Properties of the popularity score\<close>

lemma popularity_score_eq:
  assumes "int_item e ''likes'' = Inr l" "int_item e ''shares'' = Inr s"
    "int_item e ''comments'' = Inr c" "int_item e ''views'' = Inr v"
  shows "popularity_score e = weighted_engagement l s c v"
  using assms
  by (cases "float_of_int l"; cases "float_of_int s"; cases "float_of_int c";
      cases "float_of_int v")
     (simp_all add: popularity_score_def popularity_weights_def weighted_def
        weighted_engagement_def)

lemma float_of_int_exact:
  assumes "\<bar>n\<bar> < 2 ^ 53"
  shows "float_of_int n = Inr (Fin (of_int n))"
  using to_float_int[OF assms] by (simp add: float_of_int_def finite_or_overflow_def)

lemma float_of_int_nonneg:
  assumes "0 \<le> n" "float_of_int n = Inr x"
  shows "x = Fin (round_binary64 (of_int n)) \<and> 0 \<le> round_binary64 (of_int n)"
proof -
  have "0 \<le> (of_int n :: rat)" using assms(1) by simp
  from to_float_cases[OF this] show ?thesis
    using assms(2) by (auto simp: float_of_int_def finite_or_overflow_Inr)
qed

lemma to_float_nonneg: "0 \<le> q \<Longrightarrow> nonneg_float (to_float q)"
  using to_float_cases[of q] by auto


lemma float_add_nonneg: "nonneg_float x \<Longrightarrow> nonneg_float y \<Longrightarrow> nonneg_float (float_add x y)"
  by (cases x; cases y) (simp_all add: to_float_nonneg)





lemma tenth_bounds:
  "0 \<le> round_binary64 (1 / 10)" "round_binary64 (1 / 10) \<le> 1 / 8"
proof -
  show "0 \<le> round_binary64 (1 / 10)" by (rule round_binary64_nonneg) simp
  have "round_binary64 (1 / 10) \<le> 2 powi (- 3)"
    by (rule round_binary64_le_pow2) (simp_all add: power_int_minus)
  then show "round_binary64 (1 / 10) \<le> 1 / 8" by (simp add: power_int_minus)
qed




lemma transform_popularity_score:
  assumes "transform_post fromiso now p = Inr pp" and "map_of p ''engagement'' = Some (PyDict e)"
  shows "\<exists>x. popularity_score e = Inr x \<and> map_of pp ''popularity_score'' = Some (PyFloat x)"
  using assms(1) by (rule transform_post_Inr) (use assms(2) in \<open>auto simp: map_of_add_derived\<close>)






lemma engagement_rate_more_shares:
  "engagement_rate 120 9 15 4000 = Inr (PyFloat (float_lit (18 / 5)))"
  by code_simp

lemma popularity_score_more_shares:
  "popularity_score (engagement_of 120 9 15 4000) = Inr (Fin 577)"
  by code_simp

lemma transform_more_shares_post:
  "transform_post sample_fromiso sample_now more_shares_post = Inr more_shares_processed"
  using popularity_score_more_shares
  by (simp add: transform_eval sample_defs more_shares_post_def more_shares_processed_def
        engagement_of_def engagement_rate_more_shares)


section \<open>Properties of processing\<close>

lemma seq_stmt_frame:
  assumes "\<And>s. P (fst (f s)) = P s" "\<And>s. P (fst (g s)) = P s"
  shows "P (fst (seq_stmt f g s)) = P s"
proof (cases "f s")
  case (Pair s' ex)
  then show ?thesis using assms(1)[of s] assms(2)[of s'] by (cases ex) (simp_all add: seq_stmt_def)
qed

lemma count_frame:
  "processed_data (fst (count_platform pp s)) = processed_data s"
  "processed_data (fst (count_topic pp s)) = processed_data s"
  "processed_data (fst (record_engagement pp s)) = processed_data s"
  "processed_data (fst (count_sentiment pp s)) = processed_data s"
  "processed_data (fst (count_category pp s)) = processed_data s"
  "processed_data (fst (count_hour pp s)) = processed_data s"
  "processed_posts (fst (count_platform pp s)) = processed_posts s"
  "processed_posts (fst (count_topic pp s)) = processed_posts s"
  "processed_posts (fst (record_engagement pp s)) = processed_posts s"
  "processed_posts (fst (count_sentiment pp s)) = processed_posts s"
  "processed_posts (fst (count_category pp s)) = processed_posts s"
  "processed_posts (fst (count_hour pp s)) = processed_posts s"
  "failed_posts (fst (count_platform pp s)) = failed_posts s"
  "failed_posts (fst (count_topic pp s)) = failed_posts s"
  "failed_posts (fst (record_engagement pp s)) = failed_posts s"
  "failed_posts (fst (count_sentiment pp s)) = failed_posts s"
  "failed_posts (fst (count_category pp s)) = failed_posts s"
  "failed_posts (fst (count_hour pp s)) = failed_posts s"
  by (simp_all add: count_platform_def count_topic_def record_engagement_def
        count_sentiment_def count_category_def count_hour_def split: sum.splits prod.splits)

lemma update_statistics_frame:
  "processed_data (fst (update_statistics pp s)) = processed_data s"
  "processed_posts (fst (update_statistics pp s)) = processed_posts s"
  "failed_posts (fst (update_statistics pp s)) = failed_posts s"
  unfolding update_statistics_def
  by (intro seq_stmt_frame count_frame)+

lemma process_post_outcome:
  fixes fromiso tk post and s :: consumer
  defines "s' \<equiv> fst (process_post fromiso tk post s)"
  shows "(processed_data s' = processed_data s \<and> processed_posts s' = processed_posts s \<and>
          failed_posts s < failed_posts s') \<or>
         (\<exists>p pp. post = PyDict p \<and> fst (validate_post fromiso post) \<and>
            transform_post fromiso (now_transform tk) p = Inr pp \<and>
            processed_data s' = processed_data s @ [pp] \<and>
            processed_posts s' = processed_posts s + 1 \<and> failed_posts s' = failed_posts s)"
proof (cases post)
  case (PyDict p)
  show ?thesis
  proof (cases "validate_post fromiso post")
    case (Pair ok errs)
    show ?thesis
    proof (cases ok)
      case False
      then show ?thesis using PyDict Pair
        by (simp add: s'_def process_post_def log_failure_def)
    next
      case True
      show ?thesis
      proof (cases "transform_post fromiso (now_transform tk) p")
        case (Inl e)
        then show ?thesis using PyDict Pair True
          by (simp add: s'_def process_post_def log_failure_def)
      next
        case (Inr pp)
        obtain s1 ex where u: "update_statistics pp s = (s1, ex)"
          by (cases "update_statistics pp s")
        have fr: "processed_data s1 = processed_data s" "processed_posts s1 = processed_posts s"
          "failed_posts s1 = failed_posts s"
          using update_statistics_frame[of pp s] u by simp_all
        show ?thesis
        proof (cases ex)
          case None
          then show ?thesis using PyDict Pair True Inr u fr
            by (simp add: s'_def process_post_def)
        next
          case (Some e)
          then show ?thesis using PyDict Pair True Inr u fr
            by (simp add: s'_def process_post_def log_failure_def)
        qed
      qed
    qed
  qed
qed (simp_all add: s'_def process_post_def)

lemma valid_str_field:
  assumes "fst (validate_post fromiso (PyDict p))"
  shows "\<exists>x. map_of p ''platform'' = Some (PyStr x)"
    and "\<exists>x. map_of p ''sentiment'' = Some (PyStr x)"
    and "\<exists>x. map_of p ''category'' = Some (PyStr x)"
proof -
  note c = valid_checks[OF assms]
  obtain v1 v2 v3 where v: "map_of p ''platform'' = Some v1" "map_of p ''sentiment'' = Some v2"
    "map_of p ''category'' = Some v3"
    using valid_required[OF assms, of "''platform''"] valid_required[OF assms, of "''sentiment''"]
      valid_required[OF assms, of "''category''"]
    by (auto simp: required_fields_def)
  have cp: "check_platform p = Inr []" and cs: "check_sentiment p = Inr []"
    and cc: "check_category p = Inr []"
    using c by (simp_all add: checks_def)
  have "\<exists>x. v1 = PyStr x" using cp v(1)
    by (cases v1) (simp_all add: check_platform_def in_str_set_def split: if_splits)
  moreover have "\<exists>x. v2 = PyStr x" using cs v(2)
    by (cases v2) (simp_all add: check_sentiment_def in_str_set_def split: if_splits)
  moreover have "\<exists>x. v3 = PyStr x" using cc v(3)
    by (cases v3) (simp_all add: check_category_def in_str_set_def split: if_splits)
  ultimately show "\<exists>x. map_of p ''platform'' = Some (PyStr x)"
    "\<exists>x. map_of p ''sentiment'' = Some (PyStr x)"
    "\<exists>x. map_of p ''category'' = Some (PyStr x)"
    using v by auto
qed

lemma weighted_engagement_nonneg:
  assumes "0 \<le> l" "0 \<le> s" "0 \<le> c" "0 \<le> v" "weighted_engagement l s c v = Inr x"
  shows "nonneg_float x"
proof -
  from assms(5) obtain L S C V where f: "float_of_int l = Inr L" "float_of_int s = Inr S"
      "float_of_int c = Inr C" "float_of_int v = Inr V"
    and x: "x = float_add (float_add (float_add (float_add (Fin 0) (float_mul L (Fin 1)))
                 (float_mul S (Fin 3))) (float_mul C (Fin 2))) (float_mul V (float_lit (1 / 10)))"
    by (auto simp: weighted_engagement_def bind_exn_Inr_iff)
  have "nonneg_float (float_mul L (Fin 1))" "nonneg_float (float_mul S (Fin 3))"
    "nonneg_float (float_mul C (Fin 2))" "nonneg_float (float_mul V (float_lit (1 / 10)))"
    using float_of_int_nonneg[OF assms(1) f(1)] float_of_int_nonneg[OF assms(2) f(2)]
      float_of_int_nonneg[OF assms(3) f(3)] float_of_int_nonneg[OF assms(4) f(4)]
      tenth_bounds(1)
    by (simp_all add: to_float_nonneg float_lit_def)
  then show ?thesis unfolding x by (intro float_add_nonneg) simp_all
qed

lemma score_of_add_derived [simp]:
  "score_of (add_derived p stamp rate metrics score sz h) = score"
  by (simp add: score_of_def map_of_add_derived)

lemma transform_ranked_fields:
  assumes "fst (validate_post fromiso (PyDict p))" and "transform_post fromiso now p = Inr pp"
  shows "ranked_fields pp"
proof -
  obtain e l s c v where e: "map_of p ''engagement'' = Some (PyDict e)"
    and i: "int_item e ''likes'' = Inr l" "int_item e ''shares'' = Inr s"
           "int_item e ''comments'' = Inr c" "int_item e ''views'' = Inr v"
    and n: "0 \<le> l" "0 \<le> s" "0 \<le> c" "0 \<le> v"
    using valid_engagement[OF assms(1)] by blast
  obtain x where x: "popularity_score e = Inr x" "map_of pp ''popularity_score'' = Some (PyFloat x)"
    using transform_popularity_score[OF assms(2) e] by blast
  have "nonneg_float x"
    using weighted_engagement_nonneg[OF n] popularity_score_eq[OF i] x(1) by simp
  then have 1: "nonneg_float (score_of pp)" using x(2) by (simp add: score_of_def)
  obtain a b where ab: "map_of p ''post_id'' = Some a" "map_of p ''platform'' = Some b"
    using valid_required[OF assms(1), of "''post_id''"]
      valid_required[OF assms(1), of "''platform''"] by (auto simp: required_fields_def)
  from assms(2) have "map_of pp ''post_id'' = Some a \<and> map_of pp ''platform'' = Some b \<and>
      map_of pp ''engagement_rate'' \<noteq> None"
    by (rule transform_post_Inr) (use ab in \<open>simp add: map_of_add_derived\<close>)
  with 1 show ?thesis by (simp add: ranked_fields_def)
qed

lemma consistent_init: "consistent init_consumer"
  by (simp add: consistent_def init_consumer_def)

lemma process_post_consistent:
  assumes "consistent s"
  shows "consistent (fst (process_post fromiso tk post s))"
  using process_post_outcome[of fromiso tk post s] assms
  by (auto simp: consistent_def dest: transform_ranked_fields)

lemma process_all_consistent:
  "consistent s \<Longrightarrow> consistent (process_all fromiso evs s)"
proof (induction evs arbitrary: s)
  case Nil
  then show ?case by simp
next
  case (Cons ev evs)
  obtain tk post where ev: "ev = (tk, post)" by (cases ev)
  show ?case using Cons.IH[OF process_post_consistent[OF Cons.prems]] by (simp add: ev)
qed

section \<open>Properties of the analytics\<close>

lemma round_binary64_100: "round_binary64 100 = 100"
  using round_binary64_int[of 100] by simp

lemma round2_bounds:
  assumes "0 \<le> y" "y \<le> 100"
  shows "\<exists>r. py_round2 (Fin y) = Inr (Fin r) \<and> 0 \<le> r \<and> r \<le> 100"
proof -
  define z :: rat where "z = of_int (round_half_even (y * 100)) / 100"
  have z0: "0 \<le> z" using rhe_nonneg[of "y * 100"] assms(1) by (simp add: z_def)
  have "round_half_even (y * 100) \<le> round_half_even (of_int 10000)"
    using assms(2) by (intro rhe_mono) simp
  then have "round_half_even (y * 100) \<le> 10000" by (simp only: rhe_of_int)
  then have "(of_int (round_half_even (y * 100)) :: rat) \<le> of_int 10000"
    by (simp only: of_int_le_iff)
  then have z1: "z \<le> 100" by (simp add: z_def)
  have "z \<le> 2 powi 7" using z1 by simp
  from to_float_finite(1)[OF z0 this] have f: "to_float z = Fin (round_binary64 z)" by simp
  have "round_binary64 z \<le> round_binary64 100" using z0 z1 by (rule round_binary64_mono)
  then have "round_binary64 z \<le> 100" by (simp add: round_binary64_100)
  moreover have "0 \<le> round_binary64 z" using z0 by (rule round_binary64_nonneg)
  ultimately show ?thesis using f by (simp add: py_round2_def z_def finite_or_overflow_def)
qed

lemma success_rate_of_bounds:
  assumes "0 < p + f"
  shows "\<exists>r. success_rate_of p f = Inr (Fin r) \<and> 0 \<le> r \<and> r \<le> 100"
proof -
  define x :: rat where "x = of_int (int p) / of_int (int (p + f))"
  have x0: "0 \<le> x" by (simp add: x_def)
  have "0 < (of_nat p + of_nat f :: rat)" using assms
    by (metis of_nat_0_less_iff of_nat_add)
  then have x1: "x \<le> 1" by (simp add: x_def pos_divide_le_eq)
  then have "x \<le> 2 powi 0" by simp
  from to_float_finite[OF x0 this]
  have q: "to_float x = Fin (round_binary64 x)" "0 \<le> round_binary64 x" "round_binary64 x \<le> 1"
    by simp_all
  have nz: "int (p + f) \<noteq> 0" using assms by linarith
  have td: "int_truediv (int p) (int (p + f)) = Inr (Fin (round_binary64 x))"
    using nz q(1) unfolding int_truediv_def x_def by (simp add: finite_or_overflow_def)
  define y where "y = round_binary64 (round_binary64 x * 100)"
  have m0: "0 \<le> round_binary64 x * 100" using q(2) by simp
  have m1: "round_binary64 x * 100 \<le> 100" using q(3) by simp
  then have "round_binary64 x * 100 \<le> 2 powi 7" by simp
  from to_float_finite(1,2)[OF m0 this]
  have y: "to_float (round_binary64 x * 100) = Fin y" "0 \<le> y" by (simp_all add: y_def)
  have "y \<le> round_binary64 100" unfolding y_def using m0 m1 by (rule round_binary64_mono)
  then have y1: "y \<le> 100" by (simp add: round_binary64_100)
  obtain r where "py_round2 (Fin y) = Inr (Fin r)" "0 \<le> r" "r \<le> 100"
    using round2_bounds[OF y(2) y1] by blast
  then show ?thesis using td y(1) by (simp add: success_rate_of_def)
qed

lemma get_stats_total:
  "\<exists>st. get_stats s q = Inr st \<and>
     (processed_posts s + failed_posts s = 0 \<longrightarrow> stats_success_rate st = PyInt 0) \<and>
     (0 < processed_posts s + failed_posts s \<longrightarrow>
        (\<exists>r. stats_success_rate st = PyFloat (Fin r) \<and>
             success_rate_of (processed_posts s) (failed_posts s) = Inr (Fin r) \<and>
             0 \<le> r \<and> r \<le> 100))"
proof (cases "0 < processed_posts s + failed_posts s")
  case True
  from success_rate_of_bounds[OF True] obtain r where
    "success_rate_of (processed_posts s) (failed_posts s) = Inr (Fin r)" "0 \<le> r" "r \<le> 100"
    by blast
  then show ?thesis using True by (simp add: get_stats_def)
next
  case False
  then show ?thesis by (simp add: get_stats_def)
qed

subsection \<open>The ranking\<close>

lemma float_lt_nonneg:
  assumes "nonneg_float a" "nonneg_float b"
  shows "\<not> float_lt a b \<longleftrightarrow> float_le b a"
  using assms by (cases a; cases b) auto

lemma float_le_trans:
  "float_le a b \<Longrightarrow> float_le b c \<Longrightarrow> float_le a c"
  by (cases a; cases b; cases c) auto

lemma float_lt_le: "float_lt a b \<Longrightarrow> float_le a b"
  by (cases a; cases b) auto

lemma float_lt_neq: "float_lt a b \<Longrightarrow> a \<noteq> b"
  by (cases a; cases b) auto

lemma set_insort_desc: "set (insort_desc x ys) = insert x (set ys)"
  by (induction ys) auto

lemma mset_insort_desc: "mset (insort_desc x ys) = add_mset x (mset ys)"
  by (induction ys) auto

lemma mset_foldr_insort: "mset (foldr insort_desc kxs []) = mset kxs"
  by (induction kxs) (simp_all add: mset_insort_desc)

lemma sorted_insort_desc:
  assumes "sorted_wrt (\<lambda>x y. float_le (fst y) (fst x)) ys"
    and "nonneg_float (fst x)" and "\<forall>y \<in> set ys. nonneg_float (fst y)"
  shows "sorted_wrt (\<lambda>x y. float_le (fst y) (fst x)) (insort_desc x ys)"
  using assms
proof (induction ys)
  case Nil
  then show ?case by simp
next
  case (Cons y ys)
  show ?case
  proof (cases "float_lt (fst x) (fst y)")
    case True
    then have "float_le (fst x) (fst y)" by (rule float_lt_le)
    then show ?thesis using True Cons by (auto simp: set_insort_desc)
  next
    case False
    then have xy: "float_le (fst y) (fst x)"
      using float_lt_nonneg[of "fst x" "fst y"] Cons.prems by simp
    then have "\<forall>z \<in> set ys. float_le (fst z) (fst x)"
      using Cons.prems(1) by (auto intro: float_le_trans)
    then show ?thesis using False xy Cons.prems(1) by simp
  qed
qed

lemma sorted_foldr_insort:
  assumes "\<forall>x \<in> set kxs. nonneg_float (fst x)"
  shows "sorted_wrt (\<lambda>x y. float_le (fst y) (fst x)) (foldr insort_desc kxs [])"
  using assms
proof (induction kxs)
  case Nil
  then show ?case by simp
next
  case (Cons x kxs)
  have "set (foldr insort_desc kxs []) = set kxs"
    using mset_foldr_insort[of kxs] by (metis set_mset_mset)
  then show ?case using Cons by (simp add: sorted_insort_desc)
qed

lemma filter_insort_desc:
  "filter (\<lambda>y. fst y = k) (insort_desc x ys) =
     (if fst x = k then x # filter (\<lambda>y. fst y = k) ys else filter (\<lambda>y. fst y = k) ys)"
  by (induction ys) (auto dest: float_lt_neq)

lemma filter_foldr_insort:
  "filter (\<lambda>y. fst y = k) (foldr insort_desc kxs []) = filter (\<lambda>y. fst y = k) kxs"
  by (induction kxs) (simp_all add: filter_insort_desc)

lemma map_exn_Inr:
  "\<forall>x \<in> set xs. f x = Inr (g x) \<Longrightarrow> map_exn f xs = Inr (map g xs)"
  by (induction xs) simp_all

lemma score_key_ranked: "ranked_fields x \<Longrightarrow> score_key x = Inr (score_of x, x)"
  by (auto simp: ranked_fields_def score_key_def score_of_def getitem_def
           split: option.splits pyval.splits)

lemma top_entry_of_ranked: "ranked_fields x \<Longrightarrow> top_entry_of x = Inr (entry_of x)"
  by (auto simp: ranked_fields_def top_entry_of_def entry_of_def field_or_none_def
        score_of_def getitem_def split: option.splits pyval.splits)

lemma set_foldr_insort: "set (foldr insort_desc kxs []) = set kxs"
  using mset_foldr_insort[of kxs] by (metis set_mset_mset)

lemma mset_ranking: "mset (ranking data) = mset data"
proof -
  have "mset (ranking data) =
          image_mset snd (mset (foldr insort_desc (map (\<lambda>x. (score_of x, x)) data) []))"
    by (simp add: ranking_def py_sorted_desc_def)
  also have "\<dots> = image_mset snd (mset (map (\<lambda>x. (score_of x, x)) data))"
    by (simp only: mset_foldr_insort)
  also have "\<dots> = mset data" by (simp add: image_mset.compositionality comp_def)
  finally show ?thesis .
qed

lemma set_ranking: "set (ranking data) = set data"
  using mset_ranking[of data] by (metis set_mset_mset)

lemma sorted_ranking:
  assumes "list_all ranked_fields data"
  shows "sorted_wrt (\<lambda>x y. float_le (score_of y) (score_of x)) (ranking data)"
proof -
  define kxs where "kxs = map (\<lambda>x. (score_of x, x)) data"
  define srt where "srt = foldr insort_desc kxs []"
  have k: "\<forall>kx \<in> set kxs. nonneg_float (fst kx) \<and> fst kx = score_of (snd kx)"
    using assms by (auto simp: kxs_def list_all_iff ranked_fields_def)
  then have "sorted_wrt (\<lambda>x y. float_le (fst y) (fst x)) srt"
    unfolding srt_def by (intro sorted_foldr_insort) blast
  moreover have "\<forall>kx \<in> set srt. fst kx = score_of (snd kx)"
    using k by (simp add: srt_def set_foldr_insort)
  ultimately have "sorted_wrt (\<lambda>x y. float_le (score_of (snd y)) (score_of (snd x))) srt"
    by (elim sorted_wrt_mono_rel[rotated]) (metis fst_conv)
  then show ?thesis
    by (simp add: ranking_def py_sorted_desc_def sorted_wrt_map flip: kxs_def srt_def)
qed

lemma stable_ranking:
  "filter (\<lambda>x. score_of x = k) (ranking data) = filter (\<lambda>x. score_of x = k) data"
proof -
  define kxs where "kxs = map (\<lambda>x. (score_of x, x)) data"
  define srt where "srt = foldr insort_desc kxs []"
  have "\<forall>kx \<in> set srt. fst kx = score_of (snd kx)"
    by (auto simp: srt_def set_foldr_insort kxs_def)
  then have "filter (\<lambda>kx. score_of (snd kx) = k) srt = filter (\<lambda>kx. fst kx = k) srt"
    by (intro filter_cong) auto
  also have "\<dots> = filter (\<lambda>kx. fst kx = k) kxs" by (simp add: srt_def filter_foldr_insort)
  finally have "map snd (filter (\<lambda>kx. score_of (snd kx) = k) srt) =
                  map snd (filter (\<lambda>kx. fst kx = k) kxs)" by simp
  then show ?thesis
    by (simp add: ranking_def py_sorted_desc_def filter_map comp_def flip: kxs_def srt_def)
       (simp add: kxs_def filter_map comp_def)
qed

lemma get_analytics_consistent:
  assumes "consistent s" "processed_data s \<noteq> []"
  shows "\<exists>a r. get_analytics s = Inr (Analytics a) \<and>
           top_performing_posts a = map entry_of (take 5 (ranking (processed_data s))) \<and>
           success_rate a = Fin r \<and>
           success_rate_of (processed_posts s) (failed_posts s) = Inr (Fin r) \<and>
           0 \<le> r \<and> r \<le> 100 \<and> total_processed a = processed_posts s \<and>
           total_failed a = failed_posts s \<and> platform_distribution a = platform_stats s \<and>
           0 < processed_posts s"
proof -
  have rf: "\<forall>x \<in> set (processed_data s). ranked_fields x"
    using assms(1) by (simp add: consistent_def list_all_iff)
  have "length (processed_data s) = processed_posts s" using assms(1) by (simp add: consistent_def)
  then have pos: "0 < processed_posts s" using assms(2) by (cases "processed_data s") auto
  then obtain r where r: "success_rate_of (processed_posts s) (failed_posts s) = Inr (Fin r)"
      "0 \<le> r" "r \<le> 100"
    using success_rate_of_bounds[of "processed_posts s" "failed_posts s"] by auto
  have "map_exn score_key (processed_data s) =
          Inr (map (\<lambda>x. (score_of x, x)) (processed_data s))"
    using rf by (intro map_exn_Inr) (simp add: score_key_ranked)
  then have tp: "top_posts (processed_data s) = Inr (take 5 (ranking (processed_data s)))"
    by (simp add: top_posts_def ranking_def)
  have "\<forall>x \<in> set (take 5 (ranking (processed_data s))). ranked_fields x"
    using rf set_ranking[of "processed_data s"] by (auto dest: in_set_takeD)
  then have te: "map_exn top_entry_of (take 5 (ranking (processed_data s))) =
                   Inr (map entry_of (take 5 (ranking (processed_data s))))"
    by (intro map_exn_Inr) (simp add: top_entry_of_ranked)
  show ?thesis using assms(2) tp te r pos by (simp add: get_analytics_def)
qed

subsection \<open>The statistics of one post\<close>

lemma seq_stmt_no_raise:
  assumes "\<And>s. snd (f s) = None" "\<And>s. snd (g s) = None"
  shows "snd (seq_stmt f g s) = None"
proof (cases "f s")
  case (Pair s' ex)
  then show ?thesis using assms(1)[of s] assms(2)[of s'] by (simp add: seq_stmt_def)
qed

lemma seq_stmt_first: "f s = (s1, None) \<Longrightarrow> seq_stmt f g s = g s1"
  by (simp add: seq_stmt_def)

lemma update_statistics_no_raise:
  assumes "fst (validate_post fromiso (PyDict p))" and "transform_post fromiso now p = Inr pp"
    and "hashable_topic (PyDict p)"
  shows "snd (update_statistics pp s) = None"
proof -
  obtain pl se ca where v: "map_of p ''platform'' = Some (PyStr pl)"
    "map_of p ''sentiment'' = Some (PyStr se)" "map_of p ''category'' = Some (PyStr ca)"
    using valid_str_field[OF assms(1)] by blast
  from assms(2) obtain rate h where pp:
    "map_of pp ''platform'' = Some (PyStr pl)" "map_of pp ''sentiment'' = Some (PyStr se)"
    "map_of pp ''category'' = Some (PyStr ca)" "map_of pp ''topic'' = map_of p ''topic''"
    "map_of pp ''engagement_rate'' = Some rate" "map_of pp ''post_hour'' = Some (PyInt h)"
    by (rule transform_post_Inr) (use v in \<open>simp add: map_of_add_derived\<close>)
  have t: "py_hashable (case map_of pp ''topic'' of None \<Rightarrow> PyStr ''unknown'' | Some v \<Rightarrow> v)"
    using assms(3) pp(4) by (simp add: hashable_topic_def split: option.splits)
  have "\<And>s. snd (count_platform pp s) = None" "\<And>s. snd (count_topic pp s) = None"
    "\<And>s. snd (record_engagement pp s) = None" "\<And>s. snd (count_sentiment pp s) = None"
    "\<And>s. snd (count_category pp s) = None" "\<And>s. snd (count_hour pp s) = None"
    using pp t
    by (simp_all add: count_platform_def count_topic_def record_engagement_def
          count_sentiment_def count_category_def count_hour_def hashable_key_def getitem_def)
  then show ?thesis unfolding update_statistics_def by (intro seq_stmt_no_raise)
qed

lemma sum_list_bump: "sum_list (map snd (bump k d)) = sum_list (map snd d) + 1"
  by (induction d) auto

lemma platform_total_frame:
  "platform_total (fst (count_topic pp s)) = platform_total s"
  "platform_total (fst (record_engagement pp s)) = platform_total s"
  "platform_total (fst (count_sentiment pp s)) = platform_total s"
  "platform_total (fst (count_category pp s)) = platform_total s"
  "platform_total (fst (count_hour pp s)) = platform_total s"
  by (simp_all add: platform_total_def count_topic_def record_engagement_def
        count_sentiment_def count_category_def count_hour_def split: sum.splits prod.splits)

lemma platform_total_rest:
  "platform_total
     (fst (seq_stmt (count_topic pp)
            (seq_stmt (record_engagement pp)
              (seq_stmt (count_sentiment pp)
                (seq_stmt (count_category pp) (count_hour pp)))) s)) = platform_total s"
  by (intro seq_stmt_frame platform_total_frame)

lemma platform_total_update_statistics:
  assumes "snd (count_platform pp s) = None"
  shows "platform_total (fst (update_statistics pp s)) = platform_total s + 1"
proof -
  obtain k where k: "hashable_key (getitem pp ''platform'') = Inr k"
    using assms by (cases "hashable_key (getitem pp ''platform'')")
      (simp_all add: count_platform_def)
  define s1 where "s1 = s\<lparr>platform_stats := bump k (platform_stats s)\<rparr>"
  have c: "count_platform pp s = (s1, None)" by (simp add: count_platform_def k s1_def)
  have "platform_total s1 = platform_total s + 1"
    by (simp add: s1_def platform_total_def sum_list_bump)
  moreover have "update_statistics pp s =
      seq_stmt (count_topic pp)
        (seq_stmt (record_engagement pp)
          (seq_stmt (count_sentiment pp)
            (seq_stmt (count_category pp) (count_hour pp)))) s1"
    unfolding update_statistics_def
    by (rule seq_stmt_first[of "count_platform pp" s s1]) (rule c)
  ultimately show ?thesis using platform_total_rest[of pp s1] by simp
qed

lemma process_post_success:
  fixes s :: consumer
  assumes "fst (validate_post fromiso (PyDict p))"
    and "transform_post fromiso (now_transform tk) p = Inr pp"
    and "hashable_topic (PyDict p)"
  defines "s' \<equiv> fst (process_post fromiso tk (PyDict p) s)"
  shows "processed_data s' = processed_data s @ [pp]"
    and "processed_posts s' = processed_posts s + 1"
    and "failed_posts s' = failed_posts s"
    and "platform_total s' = platform_total s + 1"
proof -
  obtain s1 where u: "update_statistics pp s = (s1, None)"
    using update_statistics_no_raise[OF assms(1-3), of s] by (cases "update_statistics pp s") auto
  have fr: "processed_data s1 = processed_data s" "processed_posts s1 = processed_posts s"
    "failed_posts s1 = failed_posts s"
    using update_statistics_frame[of pp s] u by simp_all
  obtain errs where val: "validate_post fromiso (PyDict p) = (True, errs)"
    using assms(1) by (cases "validate_post fromiso (PyDict p)") auto
  have "snd (count_platform pp s) = None"
  proof (cases "count_platform pp s")
    case (Pair s0 ex)
    then show ?thesis using u
      by (cases ex) (simp_all add: update_statistics_def seq_stmt_def[of "count_platform pp"])
  qed
  then have pt: "platform_total s1 = platform_total s + 1"
    using platform_total_update_statistics[of pp s] u by simp
  have s': "s' = s1\<lparr>processed_data := processed_data s1 @ [pp],
                     processed_posts := processed_posts s1 + 1,
                     processing_times := processing_times s1 @ [elapsed tk]\<rparr>"
    by (simp add: s'_def process_post_def val assms(2) u)
  show "processed_data s' = processed_data s @ [pp]"
    "processed_posts s' = processed_posts s + 1" "failed_posts s' = failed_posts s"
    "platform_total s' = platform_total s + 1"
    using fr pt by (simp_all add: s' platform_total_def)
qed

subsection \<open>Runs of the consumer\<close>

lemma process_post_invalid:
  assumes "\<not> fst (validate_post fromiso (PyDict p))"
  shows "fst (process_post fromiso tk (PyDict p) s) =
           log_failure p (snd (validate_post fromiso (PyDict p))) tk s"
  using assms by (cases "validate_post fromiso (PyDict p)") (simp add: process_post_def)

lemma process_post_platform_total:
  fixes fromiso tk and s :: consumer
  assumes "hashable_topic post"
  defines "s' \<equiv> fst (process_post fromiso tk post s)"
  shows "platform_total s' + processed_posts s = platform_total s + processed_posts s'"
proof (cases post)
  case (PyDict p)
  show ?thesis
  proof (cases "fst (validate_post fromiso (PyDict p))")
    case False
    then show ?thesis using PyDict
      by (simp add: s'_def process_post_invalid log_failure_def platform_total_def)
  next
    case True
    then obtain errs where val: "validate_post fromiso (PyDict p) = (True, errs)"
      by (cases "validate_post fromiso (PyDict p)") auto
    show ?thesis
    proof (cases "transform_post fromiso (now_transform tk) p")
      case (Inl e)
      then show ?thesis using PyDict val
        by (simp add: s'_def process_post_def log_failure_def platform_total_def)
    next
      case (Inr pp)
      show ?thesis
        using process_post_success(2,4)[OF True Inr, of s] assms(1) PyDict
        by (simp add: s'_def)
    qed
  qed
qed (simp_all add: s'_def process_post_def platform_total_def)

lemma process_all_platform_total:
  assumes "list_all (\<lambda>ev. hashable_topic (snd ev)) evs"
  shows "platform_total (process_all fromiso evs s) + processed_posts s =
           platform_total s + processed_posts (process_all fromiso evs s)"
  using assms
proof (induction evs arbitrary: s)
  case Nil
  then show ?case by simp
next
  case (Cons ev evs)
  obtain tk post where ev: "ev = (tk, post)" by (cases ev)
  define s1 where "s1 = fst (process_post fromiso tk post s)"
  have 1: "platform_total s1 + processed_posts s = platform_total s + processed_posts s1"
    unfolding s1_def using Cons.prems by (intro process_post_platform_total) (simp add: ev)
  have 2: "platform_total (process_all fromiso evs s1) + processed_posts s1 =
             platform_total s1 + processed_posts (process_all fromiso evs s1)"
    using Cons.prems by (intro Cons.IH) simp
  show ?case using 1 2 by (simp add: ev s1_def)
qed

text \<open>Where every post of a run has a topic that can be hashed (or none), the platform
  counts add up to the number of processed posts.\<close>

lemma platform_total_hashable_topics:
  assumes "list_all (\<lambda>ev. hashable_topic (snd ev)) evs"
  shows "platform_total (process_all fromiso evs init_consumer) =
           processed_posts (process_all fromiso evs init_consumer)"
  using process_all_platform_total[OF assms, of fromiso init_consumer]
  by (simp add: init_consumer_def platform_total_def)

lemma transform_list_topic_post:
  "transform_post sample_fromiso sample_now list_topic_post = Inr list_topic_processed"
  by (simp add: transform_eval sample_defs list_topic_post_def list_topic_processed_def
        engagement_rate_sample popularity_score_sample)

lemma transform_tie_post:
  "transform_post sample_fromiso sample_now tie_post = Inr tie_processed"
  by (simp add: transform_eval sample_defs tie_post_def tie_processed_def
        engagement_rate_sample popularity_score_sample)

lemma valid_list_topic_post: "validate_post sample_fromiso (PyDict list_topic_post) = (True, [])"
  by code_simp

lemma valid_more_posts:
  "fst (validate_post sample_fromiso (PyDict more_shares_post))"
  "fst (validate_post sample_fromiso (PyDict tie_post))"
  by code_simp+

lemma update_statistics_list_topic:
  "update_statistics list_topic_processed init_consumer =
     (init_consumer\<lparr>platform_stats := [(PyStr ''twitter'', 1)]\<rparr>, Some TypeError)"
  by (simp add: update_statistics_def seq_stmt_def count_platform_def count_topic_def
        hashable_key_def getitem_def list_topic_processed_def list_topic_post_def
        map_of_add_derived update_conv' sample_post_def init_consumer_def)

text \<open>
  C5 fails on the code. A valid post whose topic is a list is counted for its platform,
  then \<open>update_statistics\<close> raises \<open>TypeError\<close> at the topic counter; \<open>process_post\<close>
  counts the post as failed and leaves the platform count in place. After this one post
  the platform distribution sums to 1 and the number of processed posts is 0.
\<close>

theorem platform_sum_unhashable_topic:
  "validate_post sample_fromiso (PyDict list_topic_post) = (True, []) \<and>
   map_of list_topic_post ''topic'' = Some (PyList []) \<and>
   process_post sample_fromiso sample_tick (PyDict list_topic_post) init_consumer =
     (log_failure list_topic_post [ExceptionText TypeError] sample_tick
        (init_consumer\<lparr>platform_stats := [(PyStr ''twitter'', 1)]\<rparr>), Inr None) \<and>
   platform_stats
     (process_all sample_fromiso [(sample_tick, PyDict list_topic_post)] init_consumer) =
     [(PyStr ''twitter'', 1)] \<and>
   platform_total
     (process_all sample_fromiso [(sample_tick, PyDict list_topic_post)] init_consumer) = 1 \<and>
   processed_posts
     (process_all sample_fromiso [(sample_tick, PyDict list_topic_post)] init_consumer) = 0 \<and>
   failed_posts
     (process_all sample_fromiso [(sample_tick, PyDict list_topic_post)] init_consumer) = 1"
proof -
  have t: "transform_post sample_fromiso (now_transform sample_tick) list_topic_post =
             Inr list_topic_processed"
    using transform_list_topic_post by (simp add: sample_tick_def)
  have p: "process_post sample_fromiso sample_tick (PyDict list_topic_post) init_consumer =
     (log_failure list_topic_post [ExceptionText TypeError] sample_tick
        (init_consumer\<lparr>platform_stats := [(PyStr ''twitter'', 1)]\<rparr>), Inr None)"
    by (simp add: process_post_def valid_list_topic_post t update_statistics_list_topic)
  have m: "map_of list_topic_post ''topic'' = Some (PyList [])"
    by (simp add: list_topic_post_def update_conv')
  show ?thesis using valid_list_topic_post m p
    by (simp add: log_failure_def init_consumer_def platform_total_def)
qed

text \<open>
  C3, as amended. After every run of the consumer: \<open>get_stats\<close> returns, and its success
  rate is the integer 0 when nothing was attempted and otherwise
  \<open>round(processed / (processed + failed) * 100, 2)\<close>, a float between 0 and 100. The
  snapshot of \<open>get_analytics\<close> is the message alone, without a success rate, as long as
  no post has been processed; once a post has been processed it carries the success
  rate, given by the same formula and between 0 and 100.
\<close>

theorem success_rate_of_runs:
  assumes "s = process_all fromiso evs init_consumer"
  shows "(\<exists>st. get_stats s q = Inr st \<and>
            (processed_posts s + failed_posts s = 0 \<longrightarrow> stats_success_rate st = PyInt 0) \<and>
            (0 < processed_posts s + failed_posts s \<longrightarrow>
               (\<exists>r. stats_success_rate st = PyFloat (Fin r) \<and>
                    success_rate_of (processed_posts s) (failed_posts s) = Inr (Fin r) \<and>
                    0 \<le> r \<and> r \<le> 100))) \<and>
         (processed_data s = [] \<longrightarrow> get_analytics s = Inr NoDataMessage) \<and>
         (processed_data s \<noteq> [] \<longrightarrow>
            (\<exists>a r. get_analytics s = Inr (Analytics a) \<and> success_rate a = Fin r \<and>
                   success_rate_of (processed_posts s) (failed_posts s) = Inr (Fin r) \<and>
                   0 \<le> r \<and> r \<le> 100))"
proof -
  have c: "consistent s" unfolding assms by (intro process_all_consistent consistent_init)
  have 1: "processed_data s = [] \<longrightarrow> get_analytics s = Inr NoDataMessage"
    by (simp add: get_analytics_def)
  have 2: "processed_data s \<noteq> [] \<longrightarrow>
            (\<exists>a r. get_analytics s = Inr (Analytics a) \<and> success_rate a = Fin r \<and>
                   success_rate_of (processed_posts s) (failed_posts s) = Inr (Fin r) \<and>
                   0 \<le> r \<and> r \<le> 100)"
    using get_analytics_consistent[OF c] by blast
  show ?thesis using get_stats_total[of s q] 1 2 by blast
qed

text \<open>C3 as stated fails: when nothing has been attempted, the snapshot is the message and
  has no success rate.\<close>

theorem success_rate_counterexample:
  "processed_posts (process_all sample_fromiso [] init_consumer)
     + failed_posts (process_all sample_fromiso [] init_consumer) = 0 \<and>
   get_analytics (process_all sample_fromiso [] init_consumer) = Inr NoDataMessage"
  by (simp add: init_consumer_def get_analytics_def)

lemma sample_ticks: "now_transform sample_tick = sample_now"
  by (simp add: sample_tick_def)

lemma hashable_sample_topics:
  "hashable_topic (PyDict sample_post)" "hashable_topic (PyDict more_shares_post)"
  "hashable_topic (PyDict tie_post)"
  by (simp_all add: hashable_topic_def sample_post_def more_shares_post_def tie_post_def
        update_conv')

lemma invalid_sample_without_username:
  "validate_post sample_fromiso (PyDict sample_without_username) =
     (False, [MissingRequiredFields {''username''}])"
  by code_simp

lemma mixed_run_state:
  "processed_data (process_all sample_fromiso mixed_run init_consumer) = [sample_processed]"
  "processed_posts (process_all sample_fromiso mixed_run init_consumer) = 1"
  "failed_posts (process_all sample_fromiso mixed_run init_consumer) = 1"
proof -
  define s1 where "s1 = fst (process_post sample_fromiso sample_tick (PyDict sample_post)
                               init_consumer)"
  have t: "transform_post sample_fromiso (now_transform sample_tick) sample_post =
             Inr sample_processed"
    using transform_sample_post by (simp add: sample_ticks)
  note a = process_post_success(1-3)[OF valid_sample_post t hashable_sample_topics(1),
      of init_consumer, folded s1_def]
  have a': "processed_data s1 = [sample_processed]" "processed_posts s1 = 1"
    "failed_posts s1 = 0"
    using a by (simp_all add: init_consumer_def)
  have n: "\<not> fst (validate_post sample_fromiso (PyDict sample_without_username))"
    by (simp add: invalid_sample_without_username)
  have s: "process_all sample_fromiso mixed_run init_consumer =
             log_failure sample_without_username
               (snd (validate_post sample_fromiso (PyDict sample_without_username)))
               sample_tick s1"
    by (simp add: mixed_run_def s1_def process_post_invalid[OF n])
  show "processed_data (process_all sample_fromiso mixed_run init_consumer) = [sample_processed]"
    "processed_posts (process_all sample_fromiso mixed_run init_consumer) = 1"
    "failed_posts (process_all sample_fromiso mixed_run init_consumer) = 1"
    using a' by (simp_all add: s log_failure_def)
qed

lemma success_rate_half: "success_rate_of 1 1 = Inr (Fin 50)"
  by code_simp

theorem success_rate_of_runs_witness:
  "processed_data (process_all sample_fromiso mixed_run init_consumer) = [sample_processed] \<and>
   processed_posts (process_all sample_fromiso mixed_run init_consumer) = 1 \<and>
   failed_posts (process_all sample_fromiso mixed_run init_consumer) = 1 \<and>
   (\<exists>a. get_analytics (process_all sample_fromiso mixed_run init_consumer) = Inr (Analytics a) \<and>
        success_rate a = Fin 50) \<and>
   (\<exists>st. get_stats (process_all sample_fromiso mixed_run init_consumer) 0 = Inr st \<and>
         stats_success_rate st = PyFloat (Fin 50))"
proof -
  define s where "s = process_all sample_fromiso mixed_run init_consumer"
  note T = success_rate_of_runs[OF s_def, of 0]
  have m: "processed_data s = [sample_processed]" "processed_posts s = 1" "failed_posts s = 1"
    unfolding s_def by (rule mixed_run_state)+
  have r: "success_rate_of (processed_posts s) (failed_posts s) = Inr (Fin 50)"
    using success_rate_half by (simp add: m)
  have "\<exists>a. get_analytics s = Inr (Analytics a) \<and> success_rate a = Fin 50"
    using T m(1) r by auto
  moreover have "\<exists>st. get_stats s 0 = Inr st \<and> stats_success_rate st = PyFloat (Fin 50)"
    using T m(2,3) r by auto
  ultimately show ?thesis using m unfolding s_def by blast
qed

text \<open>
  C6, as amended. After every run of the consumer: when no post has been processed,
  \<open>get_analytics\<close> returns the message \<open>No data processed yet\<close> alone, which has no list
  of top posts; when at least one post has been processed, \<open>get_analytics\<close> returns the
  analytics, and its list of top posts is read off the first five posts (all of them
  if there are fewer) of a ranking of the processed posts: a rearrangement of the list of
  processed posts in which the popularity score never increases from one post to the
  next, and in which the posts of any one score stand in the order in which they were
  processed.
\<close>

theorem top_posts_ranked:
  assumes "s = process_all fromiso evs init_consumer"
  shows "(processed_data s = [] \<longleftrightarrow> processed_posts s = 0) \<and>
         (processed_data s = [] \<longrightarrow> get_analytics s = Inr NoDataMessage) \<and>
         (processed_data s \<noteq> [] \<longrightarrow>
            (\<exists>a ranked.
               get_analytics s = Inr (Analytics a) \<and>
               top_performing_posts a = map entry_of (take 5 ranked) \<and>
               mset ranked = mset (processed_data s) \<and>
               sorted_wrt (\<lambda>x y. float_le (score_of y) (score_of x)) ranked \<and>
               (\<forall>k. filter (\<lambda>x. score_of x = k) ranked =
                      filter (\<lambda>x. score_of x = k) (processed_data s)) \<and>
               list_all (\<lambda>x. nonneg_float (score_of x)) ranked))"
proof (intro conjI impI)
  have c: "consistent s" unfolding assms by (intro process_all_consistent consistent_init)
  then show "processed_data s = [] \<longleftrightarrow> processed_posts s = 0"
    by (auto simp: consistent_def)
  show "get_analytics s = Inr NoDataMessage" if "processed_data s = []"
    using that by (simp add: get_analytics_def)
  show "\<exists>a ranked.
           get_analytics s = Inr (Analytics a) \<and>
           top_performing_posts a = map entry_of (take 5 ranked) \<and>
           mset ranked = mset (processed_data s) \<and>
           sorted_wrt (\<lambda>x y. float_le (score_of y) (score_of x)) ranked \<and>
           (\<forall>k. filter (\<lambda>x. score_of x = k) ranked =
                  filter (\<lambda>x. score_of x = k) (processed_data s)) \<and>
           list_all (\<lambda>x. nonneg_float (score_of x)) ranked"
    if ne: "processed_data s \<noteq> []"
  proof -
    have rf: "list_all ranked_fields (processed_data s)" using c by (simp add: consistent_def)
    obtain a where a: "get_analytics s = Inr (Analytics a)"
      "top_performing_posts a = map entry_of (take 5 (ranking (processed_data s)))"
      using get_analytics_consistent[OF c ne] by blast
    have "list_all (\<lambda>x. nonneg_float (score_of x)) (ranking (processed_data s))"
      using rf by (simp add: list_all_iff set_ranking ranked_fields_def)
    then show ?thesis
      using a mset_ranking[of "processed_data s"] sorted_ranking[OF rf]
        stable_ranking[of _ "processed_data s"]
      by blast
  qed
qed

lemma failed_run_state:
  "processed_data (process_all sample_fromiso failed_run init_consumer) = []"
  "processed_posts (process_all sample_fromiso failed_run init_consumer) = 0"
  "failed_posts (process_all sample_fromiso failed_run init_consumer) = 1"
proof -
  have n: "\<not> fst (validate_post sample_fromiso (PyDict sample_without_username))"
    by (simp add: invalid_sample_without_username)
  have s: "process_all sample_fromiso failed_run init_consumer =
             log_failure sample_without_username
               (snd (validate_post sample_fromiso (PyDict sample_without_username)))
               sample_tick init_consumer"
    by (simp add: failed_run_def process_post_invalid[OF n])
  show "processed_data (process_all sample_fromiso failed_run init_consumer) = []"
    "processed_posts (process_all sample_fromiso failed_run init_consumer) = 0"
    "failed_posts (process_all sample_fromiso failed_run init_consumer) = 1"
    unfolding s by (simp_all add: log_failure_def init_consumer_def)
qed

text \<open>
  C6 as stated fails: not every state has a list of top posts. After a run whose only
  post was rejected, nothing has been processed, and the snapshot is the message alone.
\<close>

theorem top_posts_counterexample:
  "failed_posts (process_all sample_fromiso failed_run init_consumer) = 1 \<and>
   processed_data (process_all sample_fromiso failed_run init_consumer) = [] \<and>
   get_analytics (process_all sample_fromiso failed_run init_consumer) = Inr NoDataMessage \<and>
   get_analytics init_consumer = Inr NoDataMessage"
proof -
  have "get_analytics init_consumer = Inr NoDataMessage"
    by (simp add: get_analytics_def init_consumer_def)
  then show ?thesis by (simp add: failed_run_state get_analytics_def)
qed

lemma ranked_run_state:
  "processed_data (process_all sample_fromiso ranked_run init_consumer) =
     [sample_processed, more_shares_processed, tie_processed]"
proof -
  define s1 where "s1 = fst (process_post sample_fromiso sample_tick (PyDict sample_post)
                               init_consumer)"
  define s2 where "s2 = fst (process_post sample_fromiso sample_tick (PyDict more_shares_post) s1)"
  define s3 where "s3 = fst (process_post sample_fromiso sample_tick (PyDict tie_post) s2)"
  have t: "transform_post sample_fromiso (now_transform sample_tick) sample_post =
             Inr sample_processed"
    "transform_post sample_fromiso (now_transform sample_tick) more_shares_post =
             Inr more_shares_processed"
    "transform_post sample_fromiso (now_transform sample_tick) tie_post = Inr tie_processed"
    using transform_sample_post transform_more_shares_post transform_tie_post
    by (simp_all add: sample_ticks)
  have 1: "processed_data s1 = [sample_processed]"
    using process_post_success(1)[OF valid_sample_post t(1) hashable_sample_topics(1),
        of init_consumer]
    by (simp add: s1_def init_consumer_def)
  have 2: "processed_data s2 = [sample_processed, more_shares_processed]"
    using process_post_success(1)[OF valid_more_posts(1) t(2) hashable_sample_topics(2), of s1] 1
    by (simp add: s2_def)
  have 3: "processed_data s3 = [sample_processed, more_shares_processed, tie_processed]"
    using process_post_success(1)[OF valid_more_posts(2) t(3) hashable_sample_topics(3), of s2] 2
    by (simp add: s3_def)
  have "process_all sample_fromiso ranked_run init_consumer = s3"
    by (simp add: ranked_run_def s1_def s2_def s3_def)
  then show ?thesis using 3 by simp
qed

lemma ranking_ranked_run:
  "ranking [sample_processed, more_shares_processed, tie_processed] =
     [more_shares_processed, sample_processed, tie_processed]"
  by (simp add: ranking_def py_sorted_desc_def sample_processed_def more_shares_processed_def
        tie_processed_def)

theorem top_posts_ranked_witness:
  "processed_data (process_all sample_fromiso ranked_run init_consumer) =
     [sample_processed, more_shares_processed, tie_processed] \<and>
   score_of sample_processed = Fin 574 \<and> score_of more_shares_processed = Fin 577 \<and>
   score_of tie_processed = Fin 574 \<and>
   (\<exists>a. get_analytics (process_all sample_fromiso ranked_run init_consumer) = Inr (Analytics a) \<and>
        top_performing_posts a =
          [entry_of more_shares_processed, entry_of sample_processed, entry_of tie_processed]) \<and>
   processed_data (process_all sample_fromiso failed_run init_consumer) = [] \<and>
   get_analytics (process_all sample_fromiso failed_run init_consumer) = Inr NoDataMessage"
proof -
  define s where "s = process_all sample_fromiso ranked_run init_consumer"
  define s' where "s' = process_all sample_fromiso failed_run init_consumer"
  have d: "processed_data s = [sample_processed, more_shares_processed, tie_processed]"
    unfolding s_def by (rule ranked_run_state)
  then have ne: "processed_data s \<noteq> []" by simp
  from top_posts_ranked[OF s_def] ne obtain a where a: "get_analytics s = Inr (Analytics a)"
    by blast
  have c: "consistent s" unfolding s_def by (intro process_all_consistent consistent_init)
  from get_analytics_consistent[OF c ne] a
  have "top_performing_posts a = map entry_of (take 5 (ranking (processed_data s)))" by auto
  then have "top_performing_posts a =
          [entry_of more_shares_processed, entry_of sample_processed, entry_of tie_processed]"
    by (simp add: d ranking_ranked_run)
  moreover have "score_of sample_processed = Fin 574" "score_of more_shares_processed = Fin 577"
    "score_of tie_processed = Fin 574"
    by (simp_all add: sample_processed_def more_shares_processed_def tie_processed_def)
  moreover have d': "processed_data s' = []" unfolding s'_def by (rule failed_run_state)
  moreover have "get_analytics s' = Inr NoDataMessage"
    using top_posts_ranked[OF s'_def] d' by blast
  ultimately show ?thesis using a d unfolding s_def s'_def by blast
qed

section \<open>Properties of the producer\<close>

lemma digit_char_digit: "digit_char d \<in> set ''0123456789''"
  unfolding digit_char_def by (rule nth_mem) simp

lemma show_nat_digits: "set (show_nat n) \<subseteq> set ''0123456789''"
proof (induction n rule: show_nat.induct)
  case (1 n)
  show ?case
  proof (cases "n < 10")
    case True
    then show ?thesis using digit_char_digit[of n] by (subst show_nat.simps) simp
  next
    case False
    then show ?thesis using 1 digit_char_digit[of n] by (subst show_nat.simps) simp
  qed
qed

lemma pad_nat_digits: "set (pad_nat w n) \<subseteq> set ''0123456789''"
  using show_nat_digits[of n] by (auto simp: pad_nat_def)

lemma isoformat_no_Z: "CHR ''Z'' \<notin> set (isoformat t)"
proof -
  have "CHR ''Z'' \<notin> set (pad_nat w n)" for w n using pad_nat_digits[of w n] by auto
  then show ?thesis by (simp add: isoformat_def)
qed

lemma py_replace_Z_id: "CHR ''Z'' \<notin> set s \<Longrightarrow> py_replace_Z s = s"
  by (induction s) (auto simp: py_replace_Z_def)

lemma py_strip_nonblank: "\<not> py_isspace c \<Longrightarrow> c \<in> set s \<Longrightarrow> py_strip s \<noteq> []"
  by (auto simp: py_strip_Nil_iff)

lemma float_mul_small:
  assumes "0 \<le> a" "a \<le> 2 powi j" "0 \<le> b" "b \<le> 2 powi k" "- 1074 \<le> j + k" "j + k < 1024"
  shows "\<exists>r. float_mul (Fin a) (Fin b) = Fin r \<and> 0 \<le> r \<and> r \<le> 2 powi (j + k)"
proof -
  have 0: "0 \<le> a * b" using assms(1,3) by simp
  have "a * b \<le> 2 powi j * 2 powi k" using assms(1-4) by (intro mult_mono) simp_all
  then have 1: "a * b \<le> 2 powi (j + k)" by (simp add: power_int_add)
  from to_float_finite[OF 0 1 assms(5,6)] show ?thesis by simp
qed

lemma literal_bounds:
  "0 \<le> round_binary64 (4 / 5)" "round_binary64 (4 / 5) \<le> 1"
  "0 \<le> round_binary64 (1 / 20)" "round_binary64 (1 / 20) \<le> 1"
  "0 \<le> round_binary64 (3 / 10)" "round_binary64 (6 / 5) \<le> 2"
proof -
  show "0 \<le> round_binary64 (4 / 5)" "0 \<le> round_binary64 (1 / 20)"
    "0 \<le> round_binary64 (3 / 10)"
    by (rule round_binary64_nonneg, simp)+
  have "round_binary64 (4 / 5) \<le> 2 powi 0" by (rule round_binary64_le_pow2) simp_all
  then show "round_binary64 (4 / 5) \<le> 1" by simp
  have "round_binary64 (1 / 20) \<le> 2 powi 0" by (rule round_binary64_le_pow2) simp_all
  then show "round_binary64 (1 / 20) \<le> 1" by simp
  have "round_binary64 (6 / 5) \<le> 2 powi 1" by (rule round_binary64_le_pow2) simp_all
  then show "round_binary64 (6 / 5) \<le> 2" by simp
qed

lemma scaled_count_nonneg:
  assumes "10 \<le> base" "base \<le> 1000" "0 \<le> m" "m \<le> 4"
    and "case c of None \<Rightarrow> True | Some x \<Rightarrow> (\<exists>k. x = Fin k \<and> 0 \<le> k \<and> k \<le> 16)"
    and "0 \<le> factor" "factor \<le> 16"
  shows "\<exists>i. scaled_count base (Fin m) c factor = Inr i \<and> 0 \<le> i"
proof -
  have b: "float_of_int base = Inr (Fin (of_int base))"
    using assms(1,2) by (intro float_of_int_exact) simp
  have b0: "0 \<le> (of_int base :: rat)" using assms(1) by simp
  have "base \<le> 2 ^ 10" using assms(2) by simp
  then have "(of_int base :: rat) \<le> of_int (2 ^ 10)" by (simp only: of_int_le_iff)
  then have b1: "(of_int base :: rat) \<le> 2 powi 10" by simp
  have m1: "m \<le> 2 powi 2" using assms(4) by simp
  obtain r1 where r1: "float_mul (Fin (of_int base)) (Fin m) = Fin r1" "0 \<le> r1"
      "r1 \<le> 2 powi 12"
    using float_mul_small[OF b0 b1 assms(3) m1] by auto
  have "\<exists>r2. (case c of None \<Rightarrow> Fin r1 | Some k \<Rightarrow> float_mul (Fin r1) k) = Fin r2 \<and>
          0 \<le> r2 \<and> r2 \<le> 2 powi 16"
  proof (cases c)
    case None
    have "(2::rat) powi 12 \<le> 2 powi 16" by simp
    then show ?thesis using None r1 by auto
  next
    case (Some x)
    then obtain k where k: "x = Fin k" "0 \<le> k" "k \<le> 16" using assms(5) by auto
    have "k \<le> 2 powi 4" using k(3) by simp
    from float_mul_small[OF r1(2,3) k(2) this] show ?thesis using Some k(1) by simp
  qed
  then obtain r2 where r2: "(case c of None \<Rightarrow> Fin r1 | Some k \<Rightarrow> float_mul (Fin r1) k) = Fin r2"
    "0 \<le> r2" "r2 \<le> 2 powi 16" by blast
  have "factor \<le> 2 powi 4" using assms(7) by simp
  from float_mul_small[OF r2(2,3) assms(6) this]
  obtain r3 where r3: "float_mul (Fin r2) (Fin factor) = Fin r3" "0 \<le> r3" by auto
  have "scaled_count base (Fin m) c factor = Inr \<lfloor>r3\<rfloor>"
    unfolding scaled_count_def Let_def b bind_exn_Inr r1(1) r2(1) r3(1)
    using r3(2) by (simp add: int_of_float_def)
  moreover have "0 \<le> \<lfloor>r3\<rfloor>" using r3(2) by simp
  ultimately show ?thesis by blast
qed

lemma multiplier_range:
  assumes "platform \<in> set platforms"
  shows "\<exists>m. (case map_of engagement_multiplier platform of None \<Rightarrow> Fin 1 | Some x \<Rightarrow> x) = Fin m
           \<and> 0 \<le> m \<and> m \<le> 4"
proof -
  define mu where
    "mu = (case map_of engagement_multiplier platform of None \<Rightarrow> Fin 1 | Some x \<Rightarrow> x)"
  have "platform = ''twitter'' \<or> platform = ''facebook'' \<or> platform = ''instagram'' \<or>
        platform = ''linkedin'' \<or> platform = ''tiktok''"
    using assms by (simp add: platforms_def)
  then have "case mu of Fin m \<Rightarrow> 0 \<le> m \<and> m \<le> 4 | _ \<Rightarrow> False"
    using literal_bounds(1,2) unfolding mu_def
    by (elim disjE) (simp_all add: engagement_multiplier_def float_lit_def)
  then show ?thesis unfolding mu_def[symmetric] by (cases mu) simp_all
qed

lemma topic_length: "tp \<in> set topics \<Longrightarrow> length tp \<le> 30"
  by (auto simp: topics_def)

lemma categorize_valid: "categorize_content content topic \<in> set valid_categories"
  by (simp add: categorize_content_def valid_categories_def)

lemma run_checks_all_pass:
  "\<forall>c \<in> set cs. c p = Inr [] \<Longrightarrow> run_checks cs p [] = ([], None)"
  by (induction cs) simp_all

lemma template_table:
  "list_all (\<lambda>t. fst t \<noteq> [] \<and> \<not> py_isspace (hd (fst t)) \<and>
                  length (fst t) + length (snd t) \<le> 100) content_templates"
  by (simp add: content_templates_def py_isspace_def)

lemma template_facts:
  assumes "t \<in> set content_templates"
  shows "\<exists>c \<in> set (fst t). \<not> py_isspace c" "length (fst t) + length (snd t) \<le> 100"
proof -
  have f: "fst t \<noteq> [] \<and> \<not> py_isspace (hd (fst t)) \<and> length (fst t) + length (snd t) \<le> 100"
    using template_table assms by (simp only: list_all_iff) blast
  then show "length (fst t) + length (snd t) \<le> 100" by simp
  have "hd (fst t) \<in> set (fst t)" using f by simp
  then show "\<exists>c \<in> set (fst t). \<not> py_isspace c" using f by blast
qed

lemma list_all_is_str: "list_all is_str (map PyStr xs)"
  by (induction xs) simp_all

text \<open>
  C7. Whatever the draws of \<open>generate_post\<close> within their ranges and whatever the number
  of posts generated so far, the post is generated and \<open>validate_post\<close> accepts it with an
  empty list of errors. The timestamp is what \<open>isoformat\<close> prints for the post time; that
  \<open>datetime.fromisoformat\<close> parses it back is a property of the Python library and a
  hypothesis here.
\<close>

theorem generated_post_is_valid:
  assumes "draws_in_range d" and "fromiso (isoformat (post_time d)) \<noteq> None"
  shows "\<exists>post. generate_post n d = Inr post \<and>
                validate_post fromiso (PyDict post) = (True, [])"
proof -
  define platform where "platform = platforms ! platform_draw d"
  define topic where "topic = topics ! topic_draw d"
  define template where "template = content_templates ! template_draw d"
  define content where "content = fst template @ topic @ snd template"
  define sentiment where "sentiment = [''positive'', ''neutral'', ''negative''] ! sentiment_draw d"
  define post_id where
    "post_id = ''post_'' @ show_nat (n + 1) @ ''_'' @ show_int (clock_seconds d)"
  have pl: "platform \<in> set platforms" and tp: "topic \<in> set topics"
    and tm: "template \<in> set content_templates"
    and se: "sentiment \<in> set [''positive'', ''neutral'', ''negative'']"
    using assms(1) unfolding platform_def topic_def template_def sentiment_def draws_in_range_def
    by (simp_all del: set_simps)
  have uid: "0 < user_id_draw d" and base: "10 \<le> base_engagement d" "base_engagement d \<le> 1000"
    using assms(1) by (simp_all add: draws_in_range_def)
  have f: "0 \<le> likes_factor d" "likes_factor d \<le> 16" "0 \<le> shares_factor d"
    "shares_factor d \<le> 16" "0 \<le> comments_factor d" "comments_factor d \<le> 16"
    "0 \<le> views_factor d" "views_factor d \<le> 16"
    using assms(1) literal_bounds by (simp_all add: draws_in_range_def)
  obtain m where m: "(case map_of engagement_multiplier platform of None \<Rightarrow> Fin 1 | Some x \<Rightarrow> x)
                       = Fin m" "0 \<le> m" "m \<le> 4"
    using multiplier_range[OF pl] by blast
  have c1: "case Some (float_lit (1 / 10)) of None \<Rightarrow> True
            | Some x \<Rightarrow> (\<exists>k. x = Fin k \<and> 0 \<le> k \<and> k \<le> 16)"
    using tenth_bounds by (simp add: float_lit_def)
  have c2: "case Some (float_lit (1 / 20)) of None \<Rightarrow> True
            | Some x \<Rightarrow> (\<exists>k. x = Fin k \<and> 0 \<le> k \<and> k \<le> 16)"
    using literal_bounds(3,4) by (simp add: float_lit_def)
  have c3: "case Some (Fin 10) of None \<Rightarrow> True
            | Some x \<Rightarrow> (\<exists>k. x = Fin k \<and> 0 \<le> k \<and> k \<le> 16)"
    by simp
  have c0: "case (None :: pyfloat option) of None \<Rightarrow> True
            | Some x \<Rightarrow> (\<exists>k. x = Fin k \<and> 0 \<le> k \<and> k \<le> 16)"
    by simp
  obtain likes where likes:
    "scaled_count (base_engagement d) (Fin m) None (likes_factor d) = Inr likes" "0 \<le> likes"
    using scaled_count_nonneg[OF base m(2,3) c0 f(1,2)] by blast
  obtain shares where shares:
    "scaled_count (base_engagement d) (Fin m) (Some (float_lit (1 / 10))) (shares_factor d)
       = Inr shares" "0 \<le> shares"
    using scaled_count_nonneg[OF base m(2,3) c1 f(3,4)] by blast
  obtain comments where comments:
    "scaled_count (base_engagement d) (Fin m) (Some (float_lit (1 / 20))) (comments_factor d)
       = Inr comments" "0 \<le> comments"
    using scaled_count_nonneg[OF base m(2,3) c2 f(5,6)] by blast
  obtain views where views:
    "scaled_count (base_engagement d) (Fin m) (Some (Fin 10)) (views_factor d) = Inr views"
    "0 \<le> views"
    using scaled_count_nonneg[OF base m(2,3) c3 f(7,8)] by blast
  define engagement where
    "engagement = [(''likes'', PyInt likes), (''shares'', PyInt shares),
                   (''comments'', PyInt comments), (''views'', PyInt views)]"
  define metadata where
    "metadata = [(''timestamp'', PyStr (isoformat (post_time d))),
                 (''language'', PyStr ''en''),
                 (''verified_user'', PyBool (verified_user d)),
                 (''has_media'', PyBool (has_media d)),
                 (''hashtags'', PyList (map PyStr (generate_hashtags topic (hashtag_draw d)))),
                 (''mentions'', PyInt (mentions_draw d))]"
  define post where
    "post = [(''post_id'', PyStr post_id),
             (''user_id'', PyInt (user_id_draw d)),
             (''username'', PyStr (usernames ! username_draw d)),
             (''platform'', PyStr platform),
             (''content'', PyStr content),
             (''topic'', PyStr topic),
             (''engagement'', PyDict engagement),
             (''metadata'', PyDict metadata),
             (''sentiment'', PyStr sentiment),
             (''category'', PyStr (categorize_content content topic))]"
  have gen: "generate_post n d = Inr post"
    unfolding generate_post_def Let_def
    by (simp only: m(1) likes(1) shares(1) comments(1) views(1) bind_exn_Inr
          flip: platform_def topic_def template_def)
       (simp add: post_def engagement_def metadata_def content_def post_id_def sentiment_def
          topic_def platform_def template_def)
  have k1: "check_required post = Inr []"
    by (simp add: check_required_def required_fields_def post_def)
  have "CHR ''p'' \<in> set post_id" by (simp add: post_id_def)
  then have "py_strip post_id \<noteq> []" by (intro py_strip_nonblank) (simp_all add: py_isspace_def)
  then have k2: "check_post_id post = Inr []" by (simp add: check_post_id_def post_def)
  have k3: "check_user_id post = Inr []" using uid by (simp add: check_user_id_def post_def)
  have "platform \<in> set valid_platforms" using pl by (simp add: platforms_def valid_platforms_def)
  then have k4: "check_platform post = Inr []"
    by (simp add: check_platform_def post_def in_str_set_def)
  obtain c where "c \<in> set (fst template)" "\<not> py_isspace c" using template_facts(1)[OF tm] by blast
  then have "py_strip content \<noteq> []" by (intro py_strip_nonblank[of c]) (simp_all add: content_def)
  moreover have "length content \<le> 10000"
    using template_facts(2)[OF tm] topic_length[OF tp] by (simp add: content_def)
  ultimately have k5: "check_content post = Inr []" by (simp add: check_content_def post_def)
  have k6: "check_engagement post = Inr []"
    using likes(2) shares(2) comments(2) views(2)
    by (simp add: check_engagement_def post_def engagement_def required_engagement_fields_def
          check_engagement_field_def)
  have "py_replace_Z (isoformat (post_time d)) = isoformat (post_time d)"
    by (intro py_replace_Z_id isoformat_no_Z)
  then have k7: "check_metadata fromiso post = Inr []"
    using assms(2)
    by (auto simp: check_metadata_def post_def metadata_def check_timestamp_def
          check_hashtags_def list_all_is_str)
  have "sentiment \<in> set valid_sentiments" using se by (simp add: valid_sentiments_def)
  then have k8: "check_sentiment post = Inr []"
    by (simp add: check_sentiment_def post_def in_str_set_def)
  have k9: "check_category post = Inr []"
    using categorize_valid[of content topic]
    by (simp add: check_category_def post_def in_str_set_def)
  have "run_checks (checks fromiso) post [] = ([], None)"
    using k1 k2 k3 k4 k5 k6 k7 k8 k9 by (intro run_checks_all_pass) (simp add: checks_def)
  then have "validate_post fromiso (PyDict post) = (True, [])"
    by (simp add: validate_post_def validate_body_def)
  with gen show ?thesis by blast
qed

lemma sample_draws_in_range: "draws_in_range sample_draws"
  by code_simp

lemma isoformat_sample_post_time:
  "isoformat (post_time sample_draws) = ''2024-05-17T09:30:00''"
  by (simp add: isoformat_def sample_draws_def pad_nat_def show_nat.simps digit_char_def)

theorem generated_post_is_valid_witness:
  "draws_in_range sample_draws \<and>
   isoformat (post_time sample_draws) = ''2024-05-17T09:30:00'' \<and>
   sample_fromiso (isoformat (post_time sample_draws)) \<noteq> None \<and>
   (\<exists>post. generate_post 0 sample_draws = Inr post \<and>
           validate_post sample_fromiso (PyDict post) = (True, []))"
proof -
  have h: "sample_fromiso (isoformat (post_time sample_draws)) \<noteq> None"
    by (simp add: isoformat_sample_post_time sample_fromiso_def)
  show ?thesis
    using generated_post_is_valid[of sample_draws sample_fromiso 0, OF sample_draws_in_range h]
      sample_draws_in_range
      isoformat_sample_post_time h
    by simp
qed

lemma scaled_count_samples:
  "scaled_count 100 (Fin 1) None 1 = Inr 100"
  "scaled_count 100 (Fin 1) (Some (float_lit (1 / 10))) 1 = Inr 10"
  "scaled_count 100 (Fin 1) (Some (float_lit (1 / 20))) 1 = Inr 5"
  "scaled_count 100 (Fin 1) (Some (Fin 10)) 10 = Inr 10000"
  by code_simp+

lemma categorize_sample:
  "categorize_content ''Tutorial: How to master data science in 5 simple steps''
     ''data science'' = ''educational''"
  by code_simp

lemma post_id_sample: "''post_'' @ show_nat (0 + 1) @ ''_'' @ show_int 1715938200 = ''post_1_1715938200''"
  by (simp add: show_int_def show_nat.simps digit_char_def)

lemmas generate_eval =
  generate_post_def Let_def usernames_def platforms_def topics_def content_templates_def
  engagement_multiplier_def generate_hashtags_def hashtag_pools_def scaled_count_samples
  categorize_sample

lemma generate_sample: "generate_post 0 sample_draws = Inr generated_sample"
  using post_id_sample isoformat_sample_post_time
  by (simp add: generate_eval sample_draws_def generated_sample_def)

lemma generate_other: "generate_post 0 other_draws = Inr generated_other"
  using post_id_sample isoformat_sample_post_time
  by (simp add: generate_eval sample_draws_def other_draws_def generated_sample_def
        generated_other_def)

lemma generate_post_returns:
  assumes "draws_in_range d"
  shows "\<exists>post. generate_post n d = Inr post"
proof -
  have pl: "platforms ! platform_draw d \<in> set platforms"
    using assms unfolding draws_in_range_def by (simp del: set_simps)
  have base: "10 \<le> base_engagement d" "base_engagement d \<le> 1000"
    using assms by (simp_all add: draws_in_range_def)
  have f: "0 \<le> likes_factor d" "likes_factor d \<le> 16" "0 \<le> shares_factor d"
    "shares_factor d \<le> 16" "0 \<le> comments_factor d" "comments_factor d \<le> 16"
    "0 \<le> views_factor d" "views_factor d \<le> 16"
    using assms literal_bounds by (simp_all add: draws_in_range_def)
  obtain m where m: "(case map_of engagement_multiplier (platforms ! platform_draw d) of
                        None \<Rightarrow> Fin 1 | Some x \<Rightarrow> x) = Fin m" "0 \<le> m" "m \<le> 4"
    using multiplier_range[OF pl] by blast
  have c: "case Some (float_lit (1 / 10)) of None \<Rightarrow> True
            | Some x \<Rightarrow> (\<exists>k. x = Fin k \<and> 0 \<le> k \<and> k \<le> 16)"
    "case Some (float_lit (1 / 20)) of None \<Rightarrow> True
            | Some x \<Rightarrow> (\<exists>k. x = Fin k \<and> 0 \<le> k \<and> k \<le> 16)"
    "case Some (Fin 10) of None \<Rightarrow> True
            | Some x \<Rightarrow> (\<exists>k. x = Fin k \<and> 0 \<le> k \<and> k \<le> 16)"
    "case (None :: pyfloat option) of None \<Rightarrow> True
            | Some x \<Rightarrow> (\<exists>k. x = Fin k \<and> 0 \<le> k \<and> k \<le> 16)"
    using tenth_bounds literal_bounds(3,4) by (simp_all add: float_lit_def)
  obtain likes shares comments views where
    "scaled_count (base_engagement d) (Fin m) None (likes_factor d) = Inr likes"
    "scaled_count (base_engagement d) (Fin m) (Some (float_lit (1 / 10))) (shares_factor d)
       = Inr shares"
    "scaled_count (base_engagement d) (Fin m) (Some (float_lit (1 / 20))) (comments_factor d)
       = Inr comments"
    "scaled_count (base_engagement d) (Fin m) (Some (Fin 10)) (views_factor d) = Inr views"
    using scaled_count_nonneg[OF base m(2,3) c(4) f(1,2)]
      scaled_count_nonneg[OF base m(2,3) c(1) f(3,4)]
      scaled_count_nonneg[OF base m(2,3) c(2) f(5,6)]
      scaled_count_nonneg[OF base m(2,3) c(3) f(7,8)]
    by blast
  then show ?thesis unfolding generate_post_def Let_def by (simp add: m(1))
qed

lemma generated_from_Cons:
  "generate_post k d = Inr post \<Longrightarrow> generated_from k (d # ds) = post # generated_from (Suc k) ds"
  by (simp add: generated_from_def)

lemma production_loop_run:
  assumes "list_all (\<lambda>ev. draws_in_range (ev_draws ev) \<and> \<not> ev_stop ev) evs"
    and "producing s" and "posts_generated s \<le> max_posts"
    and "sleep interval = None" and "sleep (float_mul interval (Fin 2)) = None"
  shows "production_loop sleep max_posts interval evs s =
           s\<lparr>enqueued := enqueued s @
                  generated_from (posts_generated s)
                    (put_draws (executed (max_posts - posts_generated s) evs)),
             posts_generated := posts_generated s +
                  length (put_draws (executed (max_posts - posts_generated s) evs)),
             slept := slept s @
                  map (back_off interval) (executed (max_posts - posts_generated s) evs),
             producing := posts_generated s +
                  length (put_draws (executed (max_posts - posts_generated s) evs)) < max_posts\<rparr>"
  using assms(1-3)
proof (induction evs arbitrary: s)
  case Nil
  then show ?case by (simp add: put_draws_def generated_from_def)
next
  case (Cons ev evs)
  show ?case
  proof (cases "posts_generated s < max_posts")
    case False
    then have "max_posts - posts_generated s = 0" by simp
    then show ?thesis using False Cons.prems(2)
      by (simp add: put_draws_def generated_from_def)
  next
    case True
    then have q: "max_posts - posts_generated s \<noteq> 0" by simp
    obtain post where g: "generate_post (posts_generated s) (ev_draws ev) = Inr post"
      using generate_post_returns[of "ev_draws ev"] Cons.prems(1) by auto
    have ns: "\<not> ev_stop ev" and rest: "list_all (\<lambda>ev. draws_in_range (ev_draws ev) \<and> \<not> ev_stop ev) evs"
      using Cons.prems(1) by simp_all
    show ?thesis
    proof (cases "ev_put ev")
      case Put_done
      define s1 where "s1 = produce_step sleep interval ev s"
      have s1: "s1 = s\<lparr>enqueued := enqueued s @ [post],
                        posts_generated := posts_generated s + 1,
                        slept := slept s @ [interval], producing := True\<rparr>"
        by (simp add: s1_def produce_step_def g Put_done ns assms(4))
      have p1: "producing s1" "posts_generated s1 \<le> max_posts"
        "posts_generated s1 = Suc (posts_generated s)"
        using True by (simp_all add: s1)
      have m: "max_posts - posts_generated s1 = max_posts - posts_generated s - 1"
        by (simp add: p1(3))
      have "production_loop sleep max_posts interval (ev # evs) s =
              production_loop sleep max_posts interval evs s1"
        using True Cons.prems(2) by (simp add: s1_def)
      also note Cons.IH[OF rest p1(1,2)]
      finally show ?thesis using q Put_done g
        by (simp add: m put_draws_def generated_from_Cons[OF g] back_off_def s1 p1(3))
    next
      case Put_full
      define s1 where "s1 = produce_step sleep interval ev s"
      have s1: "s1 = s\<lparr>slept := slept s @ [float_mul interval (Fin 2)], producing := True\<rparr>"
        by (simp add: s1_def produce_step_def g Put_full ns assms(5))
      have p1: "producing s1" "posts_generated s1 \<le> max_posts"
        "posts_generated s1 = posts_generated s"
        using True by (simp_all add: s1)
      have "production_loop sleep max_posts interval (ev # evs) s =
              production_loop sleep max_posts interval evs s1"
        using True Cons.prems(2) by (simp add: s1_def)
      also note Cons.IH[OF rest p1(1,2)]
      finally show ?thesis using q Put_full
        by (simp add: put_draws_def back_off_def s1)
    qed
  qed
qed

lemma production_loop_stopped:
  "\<not> producing s \<Longrightarrow> production_loop sleep max_posts interval evs s = s"
  by (cases evs) simp_all

lemma production_loop_sleep_raises:
  assumes "draws_in_range (ev_draws ev)" and "0 < max_posts"
    and "sleep (back_off interval ev) = Some e"
  shows "production_loop sleep max_posts interval (ev # evs) (init_producer\<lparr>producing := True\<rparr>) =
           \<lparr>posts_generated = length (put_draws [ev]), producing = False,
            enqueued = generated_from 0 (put_draws [ev]), slept = [], raised = Some e\<rparr>"
proof -
  obtain post where g: "generate_post 0 (ev_draws ev) = Inr post"
    using generate_post_returns[OF assms(1)] by blast
  define s1 where "s1 = produce_step sleep interval ev (init_producer\<lparr>producing := True\<rparr>)"
  have s1: "s1 = \<lparr>posts_generated = length (put_draws [ev]), producing = False,
                  enqueued = generated_from 0 (put_draws [ev]), slept = [], raised = Some e\<rparr>"
  proof (cases "ev_put ev")
    case Put_done
    then show ?thesis using assms(3) g
      by (simp add: s1_def produce_step_def init_producer_def back_off_def put_draws_def
          generated_from_Cons[OF g] generated_from_def)
  next
    case Put_full
    then show ?thesis using assms(3) g
      by (simp add: s1_def produce_step_def init_producer_def back_off_def put_draws_def
          generated_from_def)
  qed
  have "production_loop sleep max_posts interval (ev # evs) (init_producer\<lparr>producing := True\<rparr>) =
          production_loop sleep max_posts interval evs s1"
    using assms(2) by (simp add: s1_def init_producer_def)
  also have "\<dots> = s1" by (rule production_loop_stopped) (simp add: s1)
  finally show ?thesis by (simp add: s1)
qed

lemma put_draws_executed_le: "length (put_draws (executed quota evs)) \<le> quota"
proof (induction evs arbitrary: quota)
  case Nil
  then show ?case by (simp add: put_draws_def)
next
  case (Cons ev evs)
  show ?case
  proof (cases "quota = 0")
    case True
    then show ?thesis by (simp add: put_draws_def)
  next
    case False
    with Cons.IH[of "quota - 1"] Cons.IH[of quota] show ?thesis
      by (auto simp: put_draws_def)
  qed
qed

lemma other_draws_in_range: "draws_in_range other_draws"
  by code_simp

lemma full_then_done_in_range:
  "list_all (\<lambda>ev. draws_in_range (ev_draws ev) \<and> \<not> ev_stop ev) full_then_done"
  by (simp add: full_then_done_def sample_draws_in_range other_draws_in_range)

lemma to_float_two: "to_float 2 = Fin 2"
  by code_simp

lemma full_then_done_run:
  "start_production sample_sleep 5 (Fin 1) full_then_done init_producer =
     \<lparr>posts_generated = 1, producing = True, enqueued = [generated_other],
      slept = [Fin 2, Fin 1], raised = None\<rparr>"
  by (simp add: start_production_def full_then_done_def init_producer_def produce_step_def
      generate_sample generate_other to_float_two)

lemma generated_sample_differs: "generated_sample \<noteq> generated_other"
  by (simp add: generated_other_def generated_sample_def)

text \<open>
  C1, as amended. Take a run of \<open>start_production\<close> whose draws are within their ranges and
  that is not asked to stop. Where \<open>time.sleep\<close> returns on the interval and on twice the
  interval, as it does for an interval that is not negative and that the platform does
  not refuse as too long: an iteration whose \<open>put\<close>
  raises \<open>queue.Full\<close> sleeps twice the interval and leaves the count of posts as it is; the
  post that it generated is not put on the queue again, the next iteration generates a
  post from new draws under the same count. The posts on the queue are those generated in
  the iterations whose \<open>put\<close> returned, under consecutive counts, in order; their number is
  \<open>posts_generated\<close>, at most \<open>max_posts\<close>; every such iteration sleeps the interval; no
  exception is raised. Where the sleep of the first iteration raises, as \<open>time.sleep\<close> does
  on a negative interval and on \<open>nan\<close>, that exception leaves \<open>start_production\<close> after
  the first iteration, with the post of that iteration on the queue if its \<open>put\<close> returned.
\<close>

theorem full_queue_regenerates:
  assumes "list_all (\<lambda>ev. draws_in_range (ev_draws ev) \<and> \<not> ev_stop ev) evs"
  shows "(sleep interval = None \<and> sleep (float_mul interval (Fin 2)) = None \<longrightarrow>
            enqueued (start_production sleep max_posts interval evs init_producer) =
              generated_from 0 (put_draws (executed max_posts evs)) \<and>
            posts_generated (start_production sleep max_posts interval evs init_producer) =
              length (put_draws (executed max_posts evs)) \<and>
            posts_generated (start_production sleep max_posts interval evs init_producer)
              \<le> max_posts \<and>
            slept (start_production sleep max_posts interval evs init_producer) =
              map (back_off interval) (executed max_posts evs) \<and>
            raised (start_production sleep max_posts interval evs init_producer) = None) \<and>
         (\<forall>ev rest e.
            evs = ev # rest \<and> 0 < max_posts \<and> sleep (back_off interval ev) = Some e \<longrightarrow>
            start_production sleep max_posts interval evs init_producer =
              \<lparr>posts_generated = length (put_draws [ev]), producing = False,
               enqueued = generated_from 0 (put_draws [ev]), slept = [], raised = Some e\<rparr>)"
proof (intro conjI impI allI)
  assume sl: "sleep interval = None \<and> sleep (float_mul interval (Fin 2)) = None"
  have "start_production sleep max_posts interval evs init_producer =
          production_loop sleep max_posts interval evs (init_producer\<lparr>producing := True\<rparr>)"
    by (simp add: start_production_def)
  also have "\<dots> = (init_producer\<lparr>producing := True\<rparr>)
      \<lparr>enqueued := [] @ generated_from 0 (put_draws (executed (max_posts - 0) evs)),
       posts_generated := 0 + length (put_draws (executed (max_posts - 0) evs)),
       slept := [] @ map (back_off interval) (executed (max_posts - 0) evs),
       producing := 0 + length (put_draws (executed (max_posts - 0) evs)) < max_posts\<rparr>"
    using production_loop_run[OF assms, of "init_producer\<lparr>producing := True\<rparr>" max_posts
        sleep interval] sl
    by (simp add: init_producer_def)
  finally have run: "start_production sleep max_posts interval evs init_producer =
      (init_producer\<lparr>producing := True\<rparr>)
      \<lparr>enqueued := [] @ generated_from 0 (put_draws (executed (max_posts - 0) evs)),
       posts_generated := 0 + length (put_draws (executed (max_posts - 0) evs)),
       slept := [] @ map (back_off interval) (executed (max_posts - 0) evs),
       producing := 0 + length (put_draws (executed (max_posts - 0) evs)) < max_posts\<rparr>" .
  show "enqueued (start_production sleep max_posts interval evs init_producer) =
              generated_from 0 (put_draws (executed max_posts evs))"
    by (simp add: run)
  show "posts_generated (start_production sleep max_posts interval evs init_producer) =
              length (put_draws (executed max_posts evs))"
    by (simp add: run)
  show "posts_generated (start_production sleep max_posts interval evs init_producer)
              \<le> max_posts"
    using put_draws_executed_le[of max_posts evs] by (simp add: run)
  show "slept (start_production sleep max_posts interval evs init_producer) =
              map (back_off interval) (executed max_posts evs)"
    unfolding run by (simp add: init_producer_def)
  show "raised (start_production sleep max_posts interval evs init_producer) = None"
    unfolding run by (simp add: init_producer_def)
next
  fix ev rest e
  assume a: "evs = ev # rest \<and> 0 < max_posts \<and> sleep (back_off interval ev) = Some e"
  then have "draws_in_range (ev_draws ev)" using assms by simp
  from production_loop_sleep_raises[OF this, of max_posts sleep interval e rest] a
  show "start_production sleep max_posts interval evs init_producer =
              \<lparr>posts_generated = length (put_draws [ev]), producing = False,
               enqueued = generated_from 0 (put_draws [ev]), slept = [], raised = Some e\<rparr>"
    by (simp add: start_production_def)
qed

text \<open>
  C1 as stated does not hold. In a run whose first \<open>put\<close> raises \<open>queue.Full\<close> and whose
  second \<open>put\<close> returns, the post generated in the first iteration never reaches the
  queue: the queue holds the post of the second iteration only, which differs from it,
  and the run slept twice the interval, then the interval.
\<close>

theorem full_queue_counterexample:
  "generate_post 0 sample_draws = Inr generated_sample \<and>
   generated_sample \<notin>
     set (enqueued (start_production sample_sleep 5 (Fin 1) full_then_done init_producer)) \<and>
   enqueued (start_production sample_sleep 5 (Fin 1) full_then_done init_producer) =
     [generated_other] \<and>
   slept (start_production sample_sleep 5 (Fin 1) full_then_done init_producer) =
     [Fin 2, Fin 1] \<and>
   posts_generated (start_production sample_sleep 5 (Fin 1) full_then_done init_producer) = 1"
  using generate_sample generated_sample_differs by (simp add: full_then_done_run)

theorem full_queue_regenerates_witness:
  "list_all (\<lambda>ev. draws_in_range (ev_draws ev) \<and> \<not> ev_stop ev) full_then_done \<and>
   sample_sleep (Fin 1) = None \<and> sample_sleep (float_mul (Fin 1) (Fin 2)) = None \<and>
   executed 5 full_then_done = full_then_done \<and>
   put_draws full_then_done = [other_draws] \<and>
   enqueued (start_production sample_sleep 5 (Fin 1) full_then_done init_producer) =
     generated_from 0 [other_draws] \<and>
   posts_generated (start_production sample_sleep 5 (Fin 1) full_then_done init_producer) = 1 \<and>
   slept (start_production sample_sleep 5 (Fin 1) full_then_done init_producer) =
     map (back_off (Fin 1)) full_then_done \<and>
   raised (start_production sample_sleep 5 (Fin 1) full_then_done init_producer) = None \<and>
   sample_sleep (back_off (Fin (- 1)) (hd full_then_done)) = Some ValueError \<and>
   start_production sample_sleep 5 (Fin (- 1)) full_then_done init_producer =
     \<lparr>posts_generated = 0, producing = False, enqueued = [], slept = [],
      raised = Some ValueError\<rparr>"
proof -
  have e: "executed 5 full_then_done = full_then_done"
    by (simp add: full_then_done_def)
  have p: "put_draws full_then_done = [other_draws]"
    by (simp add: put_draws_def full_then_done_def)
  have s1: "sample_sleep (Fin 1) = None" "sample_sleep (float_mul (Fin 1) (Fin 2)) = None"
    by (simp_all add: to_float_two)
  have t: "to_float (- 2) = Fin (- 2)" by code_simp
  have s2: "sample_sleep (back_off (Fin (- 1)) (hd full_then_done)) = Some ValueError"
    by (simp add: full_then_done_def back_off_def t)
  have c: "full_then_done = hd full_then_done # tl full_then_done"
    by (simp add: full_then_done_def)
  have g: "put_draws [hd full_then_done] = []"
    by (simp add: put_draws_def full_then_done_def)
  note T = full_queue_regenerates[OF full_then_done_in_range]
  have a: "enqueued (start_production sample_sleep 5 (Fin 1) full_then_done init_producer) =
             generated_from 0 [other_draws] \<and>
           posts_generated (start_production sample_sleep 5 (Fin 1) full_then_done init_producer)
             = 1 \<and>
           slept (start_production sample_sleep 5 (Fin 1) full_then_done init_producer) =
             map (back_off (Fin 1)) full_then_done \<and>
           raised (start_production sample_sleep 5 (Fin 1) full_then_done init_producer) = None"
    using T[of sample_sleep "Fin 1" 5] s1 by (simp add: e p)
  have "start_production sample_sleep 5 (Fin (- 1)) full_then_done init_producer =
          \<lparr>posts_generated = length (put_draws [hd full_then_done]), producing = False,
           enqueued = generated_from 0 (put_draws [hd full_then_done]), slept = [],
           raised = Some ValueError\<rparr>"
    using T[of sample_sleep "Fin (- 1)" 5, THEN conjunct2, rule_format,
        of "hd full_then_done" "tl full_then_done" ValueError] c s2
    by simp
  then have b: "start_production sample_sleep 5 (Fin (- 1)) full_then_done init_producer =
     \<lparr>posts_generated = 0, producing = False, enqueued = [], slept = [],
      raised = Some ValueError\<rparr>"
    by (simp add: g generated_from_def)
  show ?thesis using a b e p s1 s2 full_then_done_in_range by simp
qed

end
